theory Spec2Isabelle
  imports Complex_Main "HOL-Library.Word" "HOL-Library.Log_Nat"
begin

section \<open>The rover firmware \<^verbatim>\<open>ArduinoRover.ino\<close>\<close>

text \<open>
  The sketch runs on the SAMD21 board of the Arduino Engineering Kit rover (WiFiNINA,
  ArduinoMotorCarrier): a little-endian 32-bit ARM on which \<^verbatim>\<open>int\<close> is 32-bit two's
  complement, \<^verbatim>\<open>unsigned long\<close> (the type of \<^verbatim>\<open>millis()\<close>) is 32 bits, \<^verbatim>\<open>float\<close> is IEEE-754
  binary32 and \<^verbatim>\<open>double\<close> is binary64 (\<^verbatim>\<open>sizeof(double) = 8\<close>).

  \<^item> An \<^verbatim>\<open>int\<close> is an \<^typ>\<open>int\<close> kept inside \<open>[INT_MIN, INT_MAX]\<close>; an operation of the
    source whose result would leave that range is undefined in C++ and is a \<open>fault\<close>.
  \<^item> A finite \<^verbatim>\<open>float\<close> or \<^verbatim>\<open>double\<close> is the rational number it denotes; every \<^verbatim>\<open>float\<close>
    operation rounds its exact result to binary32 with \<open>f32\<close>.
  \<^item> The millisecond clock and the stored time stamps are \<^typ>\<open>32 word\<close>.
  \<^item> The calls on the hardware (\<^verbatim>\<open>servo3.setAngle\<close>, \<^verbatim>\<open>M1.setDuty\<close>, \<^verbatim>\<open>M2.setDuty\<close>,
    \<^verbatim>\<open>delay\<close>) are appended to the log \<open>out\<close> of the state, in program order. The
    \<^verbatim>\<open>Serial.print\<close> diagnostics are left out.
\<close>

subsection \<open>Machine numbers\<close>

type_synonym byte = "8 word"

definition INT_MIN :: int where
  "INT_MIN = - (2 ^ 31)"

definition INT_MAX :: int where
  "INT_MAX = 2 ^ 31 - 1"

datatype fault = UndefinedConversion | SignedOverflow

text \<open>\<open>ilog2 x\<close> is the binary exponent of \<open>x \<noteq> 0\<close>: \<open>2 ^ ilog2 x \<le> \<bar>x\<bar> < 2 ^ (ilog2 x + 1)\<close>.\<close>

definition ilog2 :: "rat \<Rightarrow> int" where
  "ilog2 x = (let a = \<bar>x\<bar> in
     if 1 \<le> a then bitlen \<lfloor>a\<rfloor> - 1 else - bitlen (\<lceil>1 / a\<rceil> - 1))"

text \<open>Rounding to the nearest integer, a tie going to the even one.\<close>

definition rne :: "rat \<Rightarrow> int" where
  "rne x = (let f = \<lfloor>x\<rfloor>; d = x - of_int f in
     if d < 1 / 2 then f
     else if 1 / 2 < d then f + 1
     else if even f then f else f + 1)"

text \<open>
  \<open>f32 x\<close> is \<open>x\<close> rounded to binary32 in the default rounding mode (to nearest, ties to
  even): 24 significant bits, and the fixed spacing \<open>2 ^ - 149\<close> below \<open>2 ^ - 126\<close>.
  Overflow to infinity (a result of magnitude \<open>2 ^ 128\<close> or more) is not represented:
  every \<^verbatim>\<open>float\<close> of the sketch is computed from 32-bit integers by at most five
  operations with the constants 1, 2, 9, 10, 17 and 18, far below that size.
\<close>

definition f32 :: "rat \<Rightarrow> rat" where
  "f32 x = (if x = 0 then 0 else
     let ulp = 2 powi (max (ilog2 x) (- 126) - 23)
     in of_int (rne (x / ulp)) * ulp)"

definition fadd :: "rat \<Rightarrow> rat \<Rightarrow> rat" where
  "fadd x y = f32 (x + y)"

definition fsub :: "rat \<Rightarrow> rat \<Rightarrow> rat" where
  "fsub x y = f32 (x - y)"

definition fmul :: "rat \<Rightarrow> rat \<Rightarrow> rat" where
  "fmul x y = f32 (x * y)"

text \<open>Division, used by the sketch with the divisors 9 and 18 only.\<close>

definition fdiv :: "rat \<Rightarrow> rat \<Rightarrow> rat" where
  "fdiv x y = f32 (x / y)"

text \<open>The conversion of an \<^verbatim>\<open>int\<close> to \<^verbatim>\<open>float\<close> rounds; to \<^verbatim>\<open>double\<close> it is exact.\<close>

definition int_to_float :: "int \<Rightarrow> rat" where
  "int_to_float i = f32 (of_int i)"

definition int_to_double :: "int \<Rightarrow> rat" where
  "int_to_double i = of_int i"

definition double_to_float :: "rat \<Rightarrow> rat" where
  "double_to_float d = f32 d"

text \<open>
  A floating-point value is converted to \<^verbatim>\<open>int\<close> by discarding the fraction; the
  behaviour is undefined when the truncated value does not fit.
\<close>

definition trunc :: "rat \<Rightarrow> int" where
  "trunc q = (if 0 \<le> q then \<lfloor>q\<rfloor> else \<lceil>q\<rceil>)"

definition float_to_int :: "rat \<Rightarrow> fault + int" where
  "float_to_int q =
     (if INT_MIN \<le> trunc q \<and> trunc q \<le> INT_MAX then Inr (trunc q)
      else Inl UndefinedConversion)"

text \<open>What the eight bytes of the union \<^verbatim>\<open>doubleConvert\<close> denote when read as \<^verbatim>\<open>num\<close>.\<close>

datatype double = Finite rat | NonFinite

definition decode_double :: "byte list \<Rightarrow> double" where
  "decode_double bs =
     (let w = foldr (\<lambda>b acc. uint b + 256 * acc) bs 0;
          sign = w div 2 ^ 63;
          ex = (w div 2 ^ 52) mod 2 ^ 11;
          man = w mod 2 ^ 52;
          mag = (if ex = 0 then of_int man * 2 powi (- 1074)
                 else of_int (2 ^ 52 + man) * 2 powi (ex - 1075))
      in if ex = 2047 then NonFinite
         else Finite (if sign = 1 then - mag else mag))"

definition double_to_int :: "double \<Rightarrow> fault + int" where
  "double_to_int d =
     (case d of
        NonFinite \<Rightarrow> Inl UndefinedConversion
      | Finite q \<Rightarrow> float_to_int q)"

subsection \<open>State and hardware\<close>

datatype motor = M1 | M2

datatype event = SetAngle rat | SetDuty motor int | Delay nat

text \<open>
  The globals of the sketch. \<open>s_get_vel_vel\<close>, \<open>s_get_vel_time\<close>, \<open>s_get_ang_vel\<close>,
  \<open>s_get_ang_time\<close> and \<open>s_get_fork_pos\<close> are \<^verbatim>\<open>_get_vel_vel\<close>, \<^verbatim>\<open>_get_vel_time\<close>,
  \<^verbatim>\<open>_get_ang_vel\<close>, \<^verbatim>\<open>_get_ang_time\<close> and \<^verbatim>\<open>_get_fork_pos\<close>. The two time stamps are
  \<^verbatim>\<open>int\<close> variables that hold the bits of a \<^verbatim>\<open>millis()\<close> value and are converted back to
  \<^verbatim>\<open>unsigned long\<close> when they are subtracted from one.
\<close>

record rover =
  fork_new :: bool
  servo_target :: rat
  current_servo :: rat
  s_get_vel_vel :: int
  s_get_vel_time :: "32 word"
  s_get_ang_vel :: int
  s_get_ang_time :: "32 word"
  s_get_fork_pos :: int
  out :: "event list"

definition init :: rover where
  "init = \<lparr>fork_new = False, servo_target = 128, current_servo = 128,
     s_get_vel_vel = 0, s_get_vel_time = 0, s_get_ang_vel = 0, s_get_ang_time = 0,
     s_get_fork_pos = 0, out = []\<rparr>"

definition delay :: "nat \<Rightarrow> rover \<Rightarrow> rover" where
  "delay ms s = s\<lparr>out := out s @ [Delay ms]\<rparr>"

definition setServo :: "rat \<Rightarrow> rover \<Rightarrow> rover" where
  "setServo dec s =
     (let dec = max 128 (min dec 180)
      in s\<lparr>out := out s @ [SetAngle dec]\<rparr>)"

definition driveMotors :: "int \<Rightarrow> int \<Rightarrow> rover \<Rightarrow> fault + rover" where
  "driveMotors l r s =
     (if r = INT_MIN then Inl SignedOverflow
      else Inr (s\<lparr>out := out s @ [SetDuty M1 (- r), SetDuty M2 l]\<rparr>))"

definition wheel_l :: "rat \<Rightarrow> rat \<Rightarrow> rat" where
  "wheel_l lin_v ang_v = fsub (fdiv (fmul 2 lin_v) 9) (fdiv (fmul 17 ang_v) 18)"

definition wheel_r :: "rat \<Rightarrow> rat \<Rightarrow> rat" where
  "wheel_r lin_v ang_v = fadd (fdiv (fmul 17 ang_v) 18) (fdiv (fmul 2 lin_v) 9)"

text \<open>
  \<^verbatim>\<open>driveMotors(wheel_l * 10, wheel_r * 10)\<close>: the two products are \<^verbatim>\<open>float\<close>s, the
  parameters of \<^verbatim>\<open>driveMotors\<close> are \<^verbatim>\<open>int\<close>s.
\<close>

definition vels_drive_wheels :: "rat \<Rightarrow> rat \<Rightarrow> rover \<Rightarrow> fault + rover" where
  "vels_drive_wheels lin_v ang_v s =
     (case float_to_int (fmul (wheel_l lin_v ang_v) 10) of
        Inl e \<Rightarrow> Inl e
      | Inr l \<Rightarrow>
          (case float_to_int (fmul (wheel_r lin_v ang_v) 10) of
             Inl e \<Rightarrow> Inl e
           | Inr r \<Rightarrow> driveMotors l r s))"

subsection \<open>TCP parsing\<close>

text \<open>
  What a listener sees when it is polled: no client (\<open>None\<close>), or a client with the
  bytes it has buffered. \<open>read_double\<close> is the part the three listeners share: with a
  client and at least \<^verbatim>\<open>sizeof(double)\<close> bytes available, eight bytes are read into
  \<^verbatim>\<open>doubleConvert.array\<close> and \<^verbatim>\<open>doubleConvert.num\<close> is the number received.
\<close>

type_synonym client = "byte list option"

definition read_double :: "client \<Rightarrow> (double \<times> client) option" where
  "read_double c =
     (case c of
        None \<Rightarrow> None
      | Some buf \<Rightarrow>
          if 8 \<le> length buf then Some (decode_double (take 8 buf), Some (drop 8 buf))
          else None)"

text \<open>
  \<open>get_vel c t_rx t_chk s\<close>: \<open>t_rx\<close> is what \<^verbatim>\<open>millis()\<close> returns when a number is stamped,
  \<open>t_chk\<close> what it returns in the timeout test. The result is the returned \<^verbatim>\<open>int\<close>, the
  client after the poll and the new state.
\<close>

definition get_vel :: "client \<Rightarrow> 32 word \<Rightarrow> 32 word \<Rightarrow> rover \<Rightarrow> fault + (int \<times> client \<times> rover)" where
  "get_vel vel_client t_rx t_chk s =
     (case (case read_double vel_client of
              None \<Rightarrow> Inr (vel_client, s)
            | Some (num, c) \<Rightarrow>
                (case double_to_int num of
                   Inl e \<Rightarrow> Inl e
                 | Inr v \<Rightarrow> Inr (c, s\<lparr>s_get_vel_vel := v, s_get_vel_time := t_rx\<rparr>))) of
        Inl e \<Rightarrow> Inl e
      | Inr (c, s1) \<Rightarrow>
          (let s2 = (if 500 < t_chk - s_get_vel_time s1 then s1\<lparr>s_get_vel_vel := 0\<rparr> else s1)
           in Inr (s_get_vel_vel s2, c, s2)))"

definition get_ang_vel :: "client \<Rightarrow> 32 word \<Rightarrow> 32 word \<Rightarrow> rover \<Rightarrow> fault + (int \<times> client \<times> rover)" where
  "get_ang_vel ang_client t_rx t_chk s =
     (case (case read_double ang_client of
              None \<Rightarrow> Inr (ang_client, s)
            | Some (num, c) \<Rightarrow>
                (case double_to_int num of
                   Inl e \<Rightarrow> Inl e
                 | Inr v \<Rightarrow> Inr (c, s\<lparr>s_get_ang_vel := v, s_get_ang_time := t_rx\<rparr>))) of
        Inl e \<Rightarrow> Inl e
      | Inr (c, s1) \<Rightarrow>
          (let s2 = (if 500 < t_chk - s_get_ang_time s1 then s1\<lparr>s_get_ang_vel := 0\<rparr> else s1)
           in Inr (s_get_ang_vel s2, c, s2)))"

text \<open>\<open>get_fork\<close> returns a \<^verbatim>\<open>double\<close>: the \<^verbatim>\<open>int\<close> \<^verbatim>\<open>_get_fork_pos\<close>, converted.\<close>

definition get_fork :: "client \<Rightarrow> rover \<Rightarrow> fault + (rat \<times> client \<times> rover)" where
  "get_fork fork_client s =
     (case (case read_double fork_client of
              None \<Rightarrow> Inr (fork_client, s)
            | Some (num, c) \<Rightarrow>
                (case double_to_int num of
                   Inl e \<Rightarrow> Inl e
                 | Inr v \<Rightarrow> Inr (c, s\<lparr>s_get_fork_pos := v, fork_new := True\<rparr>))) of
        Inl e \<Rightarrow> Inl e
      | Inr (c, s1) \<Rightarrow> Inr (int_to_double (s_get_fork_pos s1), c, s1))"

subsection \<open>Start-up\<close>

text \<open>
  \<^verbatim>\<open>setup\<close>, run once before the main loop. \<open>wl_connected\<close> tells whether \<^verbatim>\<open>WiFi.begin\<close>
  returned \<^verbatim>\<open>WL_CONNECTED\<close>; when it did not, \<^verbatim>\<open>while(true);\<close> never ends and the result is
  \<open>None\<close>. The calls that start the serial port, the motor carrier and the three servers
  are left out. \<^verbatim>\<open>FORK_MAX\<close> is 180 and \<^verbatim>\<open>FORK_MIN\<close> is 128.
\<close>

definition setup_board :: "bool \<Rightarrow> rover \<Rightarrow> rover option" where
  "setup_board wl_connected s =
     (let s1 = delay 500 s
      in if wl_connected
         then Some (delay 500 (setServo 128 (delay 500 (setServo 180 s1))))
         else None)"

subsection \<open>The main loop\<close>

text \<open>One pass of the body of the smoothing \<^verbatim>\<open>while\<close>.\<close>

definition smooth_step :: "rover \<Rightarrow> rover" where
  "smooth_step s =
     (let s1 = (if current_servo s < servo_target s
                then s\<lparr>current_servo := fadd (current_servo s) 1\<rparr>
                else if servo_target s < current_servo s
                then s\<lparr>current_servo := fsub (current_servo s) 1\<rparr>
                else s)
      in delay 20 (setServo (current_servo s1) s1))"

text \<open>The \<^verbatim>\<open>while\<close> itself; \<open>None\<close> when it never ends.\<close>

partial_function (option) smooth_while :: "rover \<Rightarrow> rover option" where
  "smooth_while s =
     (if current_servo s \<noteq> servo_target s then smooth_while (smooth_step s) else Some s)"

text \<open>The block \<^verbatim>\<open>if(fork_new){ while ... ; fork_new = false; }\<close>.\<close>

definition smooth_fork :: "rover \<Rightarrow> rover option" where
  "smooth_fork s =
     (if fork_new s
      then (case smooth_while s of
              None \<Rightarrow> None
            | Some s1 \<Rightarrow> Some (s1\<lparr>fork_new := False\<rparr>))
      else Some s)"

text \<open>What one iteration of \<^verbatim>\<open>loop\<close> finds: the three clients and the clock readings.\<close>

record poll =
  vel_client :: client
  vel_rx :: "32 word"
  vel_chk :: "32 word"
  ang_client :: client
  ang_rx :: "32 word"
  ang_chk :: "32 word"
  fork_client :: client

definition loop :: "poll \<Rightarrow> rover \<Rightarrow> (fault + rover) option" where
  "loop p s =
     (case get_vel (vel_client p) (vel_rx p) (vel_chk p) s of
        Inl e \<Rightarrow> Some (Inl e)
      | Inr (v, _, s1) \<Rightarrow>
     (case get_ang_vel (ang_client p) (ang_rx p) (ang_chk p) s1 of
        Inl e \<Rightarrow> Some (Inl e)
      | Inr (a, _, s2) \<Rightarrow>
     (case get_fork (fork_client p) s2 of
        Inl e \<Rightarrow> Some (Inl e)
      | Inr (f, _, s3) \<Rightarrow>
     (let vel = int_to_float v;
          ang_vel = int_to_float a;
          s4 = s3\<lparr>servo_target := double_to_float f\<rparr>
      in case smooth_fork s4 of
           None \<Rightarrow> None
         | Some s5 \<Rightarrow> Some (vels_drive_wheels vel ang_vel s5)))))"

text \<open>\<^verbatim>\<open>loop\<close> called again and again, once for each poll of the list.\<close>

fun run :: "poll list \<Rightarrow> rover \<Rightarrow> (fault + rover) option" where
  "run [] s = Some (Inr s)"
| "run (p # ps) s =
     (case loop p s of
        None \<Rightarrow> None
      | Some (Inl e) \<Rightarrow> Some (Inl e)
      | Some (Inr s1) \<Rightarrow> run ps s1)"

subsection \<open>Test inputs\<close>

text \<open>An iteration in which no client is attached and the clock reads 0.\<close>

definition no_clients :: poll where
  "no_clients = \<lparr>vel_client = None, vel_rx = 0, vel_chk = 0,
     ang_client = None, ang_rx = 0, ang_chk = 0, fork_client = None\<rparr>"

text \<open>
  The little-endian binary64 encodings of 150.0, 200.0, 128.0, 1.5, \<open>2 ^ 25\<close>,
  \<open>2 ^ 24 + 1\<close> and infinity.
\<close>

definition bytes_150 :: "byte list" where
  "bytes_150 = [0, 0, 0, 0, 0, 0xC0, 0x62, 0x40]"

definition bytes_200 :: "byte list" where
  "bytes_200 = [0, 0, 0, 0, 0, 0, 0x69, 0x40]"

definition bytes_128 :: "byte list" where
  "bytes_128 = [0, 0, 0, 0, 0, 0, 0x60, 0x40]"

definition bytes_1_5 :: "byte list" where
  "bytes_1_5 = [0, 0, 0, 0, 0, 0, 0xF8, 0x3F]"



definition bytes_inf :: "byte list" where
  "bytes_inf = [0, 0, 0, 0, 0, 0, 0xF0, 0x7F]"

section \<open>Properties\<close>

subsection \<open>Rounding to binary32\<close>

lemma rne_of_int: "rne (of_int m) = m"
  by (simp add: rne_def)

lemma bitlen_ge1: "0 < n \<Longrightarrow> 1 \<le> bitlen n"
  by (simp add: bitlen_alt_def)

lemma ilog2_of_int: "n \<noteq> 0 \<Longrightarrow> ilog2 (of_int n) = bitlen \<bar>n\<bar> - 1"
proof -
  assume "n \<noteq> 0"
  then have "1 \<le> \<bar>n\<bar>" by simp
  then have "(1::rat) \<le> of_int \<bar>n\<bar>" by (simp only: of_int_1_le_iff)
  then have "(1::rat) \<le> \<bar>of_int n\<bar>" by simp
  moreover have "\<lfloor>\<bar>of_int n :: rat\<bar>\<rfloor> = \<bar>n\<bar>"
    by (metis floor_of_int of_int_abs)
  ultimately show ?thesis
    by (simp add: ilog2_def Let_def)
qed

text \<open>An integer of magnitude below \<open>2 ^ 24\<close> is a binary32 number.\<close>

lemma f32_of_int_lt:
  assumes "\<bar>n\<bar> < 2 ^ 24"
  shows "f32 (of_int n) = of_int n"
proof (cases "n = 0")
  case True
  then show ?thesis by (simp add: f32_def)
next
  case False
  define e where "e = bitlen \<bar>n\<bar> - 1"
  from False have pos: "0 < \<bar>n\<bar>" by simp
  have e0: "0 \<le> e"
    using bitlen_ge1 [OF pos] by (simp add: e_def)
  from bitlen_bounds [OF pos] have lo: "2 ^ nat e \<le> \<bar>n\<bar>"
    by (simp add: e_def)
  with assms have "(2::int) ^ nat e < 2 ^ 24" by linarith
  then have "nat e < 24" by (rule power_less_imp_less_exp [rotated]) simp
  with e0 have e23: "e \<le> 23" by linarith
  define k where "k = nat (23 - e)"
  have il: "ilog2 (of_int n) = e"
    using False by (simp add: ilog2_of_int e_def)
  have mx: "max e (- 126) = e"
    using e0 by simp
  have ulp: "(2::rat) powi (max e (- 126) - 23) = 1 / 2 ^ k"
  proof (cases "e = 23")
    case True
    then show ?thesis by (simp add: k_def)
  next
    case False
    with e23 have "e - 23 < 0" "nat (- (e - 23)) = k"
      by (auto simp: k_def)
    then show ?thesis
      unfolding mx by (simp add: power_int_def power_one_over inverse_eq_divide)
  qed
  have "of_int n / (1 / 2 ^ k) = (of_int (n * 2 ^ k) :: rat)"
    by simp
  then have "rne (of_int n / (1 / 2 ^ k)) = n * 2 ^ k"
    by (simp only: rne_of_int)
  then show ?thesis
    using False by (simp add: f32_def il ulp Let_def)
qed

lemma f32_2p24: "f32 16777216 = 16777216" "f32 (- 16777216) = - 16777216"
  by code_simp+

lemma f32_of_int:
  assumes "\<bar>n\<bar> \<le> 2 ^ 24"
  shows "f32 (of_int n) = of_int n"
proof -
  from assms consider "\<bar>n\<bar> < 2 ^ 24" | "n = 16777216" | "n = - 16777216"
    by fastforce
  then show ?thesis
    by cases (simp_all add: f32_of_int_lt f32_2p24)
qed

lemma f32_Ints: "x \<in> \<int> \<Longrightarrow> \<bar>x\<bar> \<le> 2 ^ 24 \<Longrightarrow> f32 x = x"
proof -
  assume "x \<in> \<int>" and b: "\<bar>x\<bar> \<le> 2 ^ 24"
  then obtain n where n: "x = of_int n" by (auto elim: Ints_cases)
  with b have "(of_int \<bar>n\<bar> :: rat) \<le> of_int (2 ^ 24)" by simp
  then have "\<bar>n\<bar> \<le> 2 ^ 24" by (simp only: of_int_le_iff)
  then show ?thesis unfolding n by (rule f32_of_int)
qed

lemma f32_0 [simp]: "f32 0 = 0"
  by (simp add: f32_def)


lemma trunc_of_int [simp]: "trunc (of_int n) = n"
  by (simp add: trunc_def)

lemma trunc_numeral [simp]: "trunc (numeral k) = numeral k"
  using trunc_of_int [of "numeral k"] by simp

lemma trunc_0 [simp]: "trunc 0 = 0"
  by (simp add: trunc_def)

subsection \<open>The smoothing loop\<close>

lemma smooth_step_up:
  assumes "current_servo s = of_int c" "servo_target s = of_int t" "c < t"
    and "- (2 ^ 24) \<le> c" "t \<le> 2 ^ 24"
  shows "smooth_step s = s\<lparr>current_servo := of_int (c + 1),
           out := out s @ [SetAngle (max 128 (min (of_int (c + 1)) 180)), Delay 20]\<rparr>"
proof -
  from assms have "\<bar>c + 1\<bar> \<le> 2 ^ 24" by linarith
  then have "f32 (of_int (c + 1)) = of_int (c + 1)" by (rule f32_of_int)
  then have "fadd (of_int c) 1 = of_int (c + 1)" by (simp add: fadd_def)
  with assms(1-3) show ?thesis
    by (simp add: smooth_step_def setServo_def delay_def Let_def)
qed

lemma smooth_step_down:
  assumes "current_servo s = of_int c" "servo_target s = of_int t" "t < c"
    and "- (2 ^ 24) \<le> t" "c \<le> 2 ^ 24"
  shows "smooth_step s = s\<lparr>current_servo := of_int (c - 1),
           out := out s @ [SetAngle (max 128 (min (of_int (c - 1)) 180)), Delay 20]\<rparr>"
proof -
  from assms have "\<bar>c - 1\<bar> \<le> 2 ^ 24" by linarith
  then have "f32 (of_int (c - 1)) = of_int (c - 1)" by (rule f32_of_int)
  then have "fsub (of_int c) 1 = of_int (c - 1)" by (simp add: fsub_def)
  with assms(1-3) show ?thesis
    by (simp add: smooth_step_def setServo_def delay_def Let_def)
qed

text \<open>
  A ramp between integers of magnitude up to \<open>2 ^ 24\<close> ends at the target; the positions
  it visits are handed to \<open>setServo\<close> one by one.
\<close>

lemma smooth_while_up:
  assumes "current_servo s = of_int c" "servo_target s = of_int t" "c \<le> t"
    and "- (2 ^ 24) \<le> c" "t \<le> 2 ^ 24"
  shows "smooth_while s = Some (s\<lparr>current_servo := of_int t,
           out := out s @ concat (map (\<lambda>v. [SetAngle (max 128 (min (of_int v) 180)), Delay 20])
                                   [c + 1..t])\<rparr>)"
  using assms
proof (induction "nat (t - c)" arbitrary: c s)
  case 0
  then have "c = t" by simp
  with 0 show ?case
    by (subst smooth_while.simps) simp
next
  case (Suc n)
  then have lt: "c < t" by linarith
  let ?s = "smooth_step s"
  have st: "?s = s\<lparr>current_servo := of_int (c + 1),
           out := out s @ [SetAngle (max 128 (min (of_int (c + 1)) 180)), Delay 20]\<rparr>"
    using Suc.prems lt by (intro smooth_step_up) auto
  have "smooth_while ?s = Some (?s\<lparr>current_servo := of_int t,
           out := out ?s @ concat (map (\<lambda>v. [SetAngle (max 128 (min (of_int v) 180)), Delay 20])
                                    [c + 1 + 1..t])\<rparr>)"
    using Suc.hyps(2) Suc.prems lt by (intro Suc.hyps(1)) (auto simp: st)
  moreover have "[c + 1..t] = (c + 1) # [c + 1 + 1..t]"
    using lt by (simp add: upto_rec1)
  moreover have "smooth_while s = smooth_while ?s"
    using Suc.prems lt by (subst smooth_while.simps) simp
  ultimately show ?case
    by (simp add: st)
qed

lemma smooth_while_down:
  assumes "current_servo s = of_int c" "servo_target s = of_int t" "t \<le> c"
    and "- (2 ^ 24) \<le> t" "c \<le> 2 ^ 24"
  shows "smooth_while s = Some (s\<lparr>current_servo := of_int t,
           out := out s @ concat (map (\<lambda>v. [SetAngle (max 128 (min (of_int v) 180)), Delay 20])
                                   (rev [t..c - 1]))\<rparr>)"
  using assms
proof (induction "nat (c - t)" arbitrary: c s)
  case 0
  then have "c = t" by simp
  with 0 show ?case
    by (subst smooth_while.simps) simp
next
  case (Suc n)
  then have lt: "t < c" by linarith
  let ?s = "smooth_step s"
  have st: "?s = s\<lparr>current_servo := of_int (c - 1),
           out := out s @ [SetAngle (max 128 (min (of_int (c - 1)) 180)), Delay 20]\<rparr>"
    using Suc.prems lt by (intro smooth_step_down) auto
  have "smooth_while ?s = Some (?s\<lparr>current_servo := of_int t,
           out := out ?s @ concat (map (\<lambda>v. [SetAngle (max 128 (min (of_int v) 180)), Delay 20])
                                    (rev [t..c - 1 - 1]))\<rparr>)"
    using Suc.hyps(2) Suc.prems lt by (intro Suc.hyps(1)) (auto simp: st)
  moreover have "[t..c - 1] = [t..c - 1 - 1] @ [c - 1]"
    using lt by (simp add: upto_rec2)
  moreover have "smooth_while s = smooth_while ?s"
    using Suc.prems lt by (subst smooth_while.simps) simp
  ultimately show ?case
    by (simp add: st)
qed

text \<open>The positions visited on the way from \<open>c\<close> to \<open>t\<close>, in order.\<close>

lemma smooth_while_ramp:
  assumes "current_servo s = of_int c" "servo_target s = of_int t"
    and "\<bar>c\<bar> \<le> 2 ^ 24" "\<bar>t\<bar> \<le> 2 ^ 24"
  shows "smooth_while s = Some (s\<lparr>current_servo := of_int t,
           out := out s @ concat (map (\<lambda>v. [SetAngle (max 128 (min (of_int v) 180)), Delay 20])
                                   (if c \<le> t then [c + 1..t] else rev [t..c - 1]))\<rparr>)"
proof (cases "c \<le> t")
  case True
  with assms show ?thesis
    using smooth_while_up [of s c t] by simp
next
  case False
  with assms show ?thesis
    using smooth_while_down [of s c t] by simp
qed

lemma length_ramp: "length (if c \<le> t then [c + 1..t] else rev [t..c - 1]) = nat \<bar>t - c\<bar>"
  by simp


subsection \<open>The listeners\<close>

lemma decode_150: "decode_double bytes_150 = Finite 150"
  by code_simp

lemma decode_200: "decode_double bytes_200 = Finite 200"
  by code_simp

lemma decode_128: "decode_double bytes_128 = Finite 128"
  by code_simp

lemma decode_1_5: "decode_double bytes_1_5 = Finite (3 / 2)"
  by code_simp



lemma read_double_None: "read_double None = None"
  by (simp add: read_double_def)

lemma read_double_short: "length buf < 8 \<Longrightarrow> read_double (Some buf) = None"
  by (simp add: read_double_def)

lemma read_double_Some:
  "8 \<le> length buf \<Longrightarrow> read_double (Some buf) = Some (decode_double (take 8 buf), Some (drop 8 buf))"
  by (simp add: read_double_def)

lemma double_to_int_Finite:
  "INT_MIN \<le> trunc q \<Longrightarrow> trunc q \<le> INT_MAX \<Longrightarrow> double_to_int (Finite q) = Inr (trunc q)"
  by (simp add: double_to_int_def float_to_int_def)

lemma get_fork_silent:
  "read_double c = None \<Longrightarrow> get_fork c s = Inr (of_int (s_get_fork_pos s), c, s)"
  by (simp add: get_fork_def int_to_double_def)

lemma get_fork_message:
  assumes "read_double c = Some (Finite q, c')" "INT_MIN \<le> trunc q" "trunc q \<le> INT_MAX"
  shows "get_fork c s = Inr (of_int (trunc q), c', s\<lparr>s_get_fork_pos := trunc q, fork_new := True\<rparr>)"
  using assms by (simp add: get_fork_def int_to_double_def double_to_int_Finite)

lemma get_vel_silent:
  "read_double c = None \<Longrightarrow> get_vel c t_rx t_chk s =
     (if 500 < t_chk - s_get_vel_time s then Inr (0, c, s\<lparr>s_get_vel_vel := 0\<rparr>)
      else Inr (s_get_vel_vel s, c, s))"
  by (simp add: get_vel_def)

lemma get_ang_vel_silent:
  "read_double c = None \<Longrightarrow> get_ang_vel c t_rx t_chk s =
     (if 500 < t_chk - s_get_ang_time s then Inr (0, c, s\<lparr>s_get_ang_vel := 0\<rparr>)
      else Inr (s_get_ang_vel s, c, s))"
  by (simp add: get_ang_vel_def)

lemma get_vel_message:
  assumes "read_double c = Some (Finite q, c')" "INT_MIN \<le> trunc q" "trunc q \<le> INT_MAX"
  shows "get_vel c t_rx t_chk s =
     (if 500 < t_chk - t_rx then Inr (0, c', s\<lparr>s_get_vel_vel := 0, s_get_vel_time := t_rx\<rparr>)
      else Inr (trunc q, c', s\<lparr>s_get_vel_vel := trunc q, s_get_vel_time := t_rx\<rparr>))"
  using assms by (simp add: get_vel_def double_to_int_Finite)

lemma get_ang_vel_message:
  assumes "read_double c = Some (Finite q, c')" "INT_MIN \<le> trunc q" "trunc q \<le> INT_MAX"
  shows "get_ang_vel c t_rx t_chk s =
     (if 500 < t_chk - t_rx then Inr (0, c', s\<lparr>s_get_ang_vel := 0, s_get_ang_time := t_rx\<rparr>)
      else Inr (trunc q, c', s\<lparr>s_get_ang_vel := trunc q, s_get_ang_time := t_rx\<rparr>))"
  using assms by (simp add: get_ang_vel_def double_to_int_Finite)

subsection \<open>The wheels at rest\<close>

lemma drive_0: "vels_drive_wheels 0 0 s = Inr (s\<lparr>out := out s @ [SetDuty M1 0, SetDuty M2 0]\<rparr>)"
  by (simp add: vels_drive_wheels_def wheel_l_def wheel_r_def fmul_def fdiv_def fsub_def fadd_def
      float_to_int_def INT_MIN_def INT_MAX_def driveMotors_def)

text \<open>An iteration from the initial state in which only the fork listener has a client.\<close>

lemma loop_fork_only:
  assumes "read_double c = Some (Finite (of_int z), c')" "\<bar>z\<bar> \<le> 2 ^ 24"
  shows "loop (no_clients\<lparr>fork_client := c\<rparr>) init =
     (case smooth_fork (init\<lparr>s_get_fork_pos := z, fork_new := True, servo_target := of_int z\<rparr>) of
        None \<Rightarrow> None
      | Some s \<Rightarrow> Some (Inr (s\<lparr>out := out s @ [SetDuty M1 0, SetDuty M2 0]\<rparr>)))"
proof -
  have v: "get_vel None 0 0 init = Inr (0, None, init)"
    by (simp add: get_vel_silent read_double_None) (simp add: init_def)
  have a: "get_ang_vel None 0 0 init = Inr (0, None, init)"
    by (simp add: get_ang_vel_silent read_double_None) (simp add: init_def)
  from assms(2) have "INT_MIN \<le> z" "z \<le> INT_MAX"
    by (simp_all add: INT_MIN_def INT_MAX_def)
  then have f: "get_fork c init =
      Inr (of_int z, c', init\<lparr>s_get_fork_pos := z, fork_new := True\<rparr>)"
    using get_fork_message [OF assms(1), of init] by simp
  have r: "f32 (of_int z) = of_int z"
    using assms(2) by (rule f32_of_int)
  show ?thesis
    by (simp add: loop_def no_clients_def v a f int_to_float_def double_to_float_def r drive_0
        split: option.split)
qed

text \<open>
  C1. Convergence and step count of the smoother. With a fork position pending, from an
  integer position \<open>c\<close> and for an integer target \<open>t\<close>, both in \<open>[128, 180]\<close>, the block
  ends; it has visited \<open>c + 1, ..., t\<close> (or \<open>c - 1, ..., t\<close>), one unit at a time,
  handing each position to the servo and pausing 20 ms after it; these are \<open>\<bar>t - c\<bar>\<close>
  steps; it ends with the position equal to the target and the pending flag cleared.
  In particular, from the initial state the bytes of 150.0 on the fork listener give the
  22 servo calls 129, ..., 150 in this order, each followed by the pause, and nothing
  pending.
\<close>

theorem smoother_converges:
  assumes "fork_new s" and "current_servo s = of_int c" and "servo_target s = of_int t"
    and "128 \<le> c" and "c \<le> 180" and "128 \<le> t" and "t \<le> 180"
  shows "smooth_fork s = Some (s\<lparr>current_servo := of_int t,
             out := out s @ concat (map (\<lambda>v. [SetAngle (of_int v), Delay 20])
                                     (if c \<le> t then [c + 1..t] else rev [t..c - 1])),
             fork_new := False\<rparr>)
         \<and> length (if c \<le> t then [c + 1..t] else rev [t..c - 1]) = nat \<bar>t - c\<bar>
         \<and> loop (no_clients\<lparr>fork_client := Some bytes_150\<rparr>) init =
             Some (Inr (init\<lparr>s_get_fork_pos := 150, servo_target := 150, current_servo := 150,
               out := concat (map (\<lambda>v. [SetAngle (of_int v), Delay 20]) [129..150])
                      @ [SetDuty M1 0, SetDuty M2 0]\<rparr>))
         \<and> length [129..150::int] = 22"
proof -
  have clamp: "map (\<lambda>v. [SetAngle (max 128 (min (of_int v) 180)), Delay 20])
                 (if c' \<le> t' then [c' + 1..t'] else rev [t'..c' - 1])
             = map (\<lambda>v. [SetAngle (of_int v), Delay 20])
                 (if c' \<le> t' then [c' + 1..t'] else rev [t'..c' - 1])"
    if "128 \<le> c'" "c' \<le> 180" "128 \<le> t'" "t' \<le> 180" for c' t' :: int
    using that by (intro map_cong refl) (auto simp: max_def min_def split: if_splits)
  have ramp: "smooth_fork s' = Some (s'\<lparr>current_servo := of_int t',
             out := out s' @ concat (map (\<lambda>v. [SetAngle (of_int v), Delay 20])
                                     (if c' \<le> t' then [c' + 1..t'] else rev [t'..c' - 1])),
             fork_new := False\<rparr>)"
    if "fork_new s'" "current_servo s' = of_int c'" "servo_target s' = of_int t'"
      "128 \<le> c'" "c' \<le> 180" "128 \<le> t'" "t' \<le> 180" for s' c' t'
  proof -
    from that have "\<bar>c'\<bar> \<le> 2 ^ 24" "\<bar>t'\<bar> \<le> 2 ^ 24" by simp_all
    from smooth_while_ramp [OF that(2,3) this] that(1) show ?thesis
      by (simp add: smooth_fork_def clamp [OF that(4-7)])
  qed
  have "read_double (Some bytes_150) = Some (Finite (of_int 150), Some [])"
    using decode_150 by (simp add: read_double_def bytes_150_def)
  then have "loop (no_clients\<lparr>fork_client := Some bytes_150\<rparr>) init =
     (case smooth_fork (init\<lparr>s_get_fork_pos := 150, fork_new := True, servo_target := of_int 150\<rparr>) of
        None \<Rightarrow> None
      | Some s \<Rightarrow> Some (Inr (s\<lparr>out := out s @ [SetDuty M1 0, SetDuty M2 0]\<rparr>)))"
    by (rule loop_fork_only) simp
  moreover have "smooth_fork (init\<lparr>s_get_fork_pos := 150, fork_new := True, servo_target := of_int 150\<rparr>)
      = Some (init\<lparr>s_get_fork_pos := 150, servo_target := 150, current_servo := 150,
               out := concat (map (\<lambda>v. [SetAngle (of_int v), Delay 20]) [129..150])\<rparr>)"
    using ramp [of "init\<lparr>s_get_fork_pos := 150, fork_new := True, servo_target := of_int 150\<rparr>" 128 150]
    by (simp add: init_def)
  ultimately show ?thesis
    using ramp [OF assms] by (simp add: init_def)
qed

theorem smoother_converges_witness:
  "fork_new (init\<lparr>fork_new := True, servo_target := 128, current_servo := 131\<rparr>)
   \<and> current_servo (init\<lparr>fork_new := True, servo_target := 128, current_servo := 131\<rparr>) = of_int 131
   \<and> servo_target (init\<lparr>fork_new := True, servo_target := 128, current_servo := 131\<rparr>) = of_int 128
   \<and> (128::int) \<le> 131 \<and> (131::int) \<le> 180 \<and> (128::int) \<le> 128 \<and> (128::int) \<le> 180
   \<and> smooth_fork (init\<lparr>fork_new := True, servo_target := 128, current_servo := 131\<rparr>) =
       Some (init\<lparr>current_servo := 128,
         out := [SetAngle 130, Delay 20, SetAngle 129, Delay 20, SetAngle 128, Delay 20]\<rparr>)"
  using smoother_converges [of "init\<lparr>fork_new := True, servo_target := 128, current_servo := 131\<rparr>" 131 128]
  by (simp add: init_def)

text \<open>
  C8. Idempotence of the smoother. When the pending target equals the current position,
  the block makes no step and no servo call: the state is unchanged but for the pending
  flag, which is cleared. From the initial state (position 128) the bytes of 128.0 on the
  fork listener leave only the two wheel commands in the log.
\<close>

theorem smoother_idempotent:
  assumes "fork_new s" and "current_servo s = servo_target s"
  shows "smooth_fork s = Some (s\<lparr>fork_new := False\<rparr>)
         \<and> loop (no_clients\<lparr>fork_client := Some bytes_128\<rparr>) init =
             Some (Inr (init\<lparr>s_get_fork_pos := 128, out := [SetDuty M1 0, SetDuty M2 0]\<rparr>))"
proof -
  have idle: "smooth_fork s' = Some (s'\<lparr>fork_new := False\<rparr>)"
    if "fork_new s'" "current_servo s' = servo_target s'" for s'
    using that by (simp add: smooth_fork_def smooth_while.simps)
  have "read_double (Some bytes_128) = Some (Finite (of_int 128), Some [])"
    using decode_128 by (simp add: read_double_def bytes_128_def)
  then have "loop (no_clients\<lparr>fork_client := Some bytes_128\<rparr>) init =
     (case smooth_fork (init\<lparr>s_get_fork_pos := 128, fork_new := True, servo_target := of_int 128\<rparr>) of
        None \<Rightarrow> None
      | Some s \<Rightarrow> Some (Inr (s\<lparr>out := out s @ [SetDuty M1 0, SetDuty M2 0]\<rparr>)))"
    by (rule loop_fork_only) simp
  moreover have "smooth_fork (init\<lparr>s_get_fork_pos := 128, fork_new := True, servo_target := of_int 128\<rparr>)
      = Some (init\<lparr>s_get_fork_pos := 128\<rparr>)"
    using idle [of "init\<lparr>s_get_fork_pos := 128, fork_new := True, servo_target := of_int 128\<rparr>"]
    by (simp add: init_def)
  ultimately show ?thesis
    using idle [OF assms] by (simp add: init_def)
qed

theorem smoother_idempotent_witness:
  "fork_new (init\<lparr>fork_new := True, servo_target := 140, current_servo := 140\<rparr>)
   \<and> current_servo (init\<lparr>fork_new := True, servo_target := 140, current_servo := 140\<rparr>)
       = servo_target (init\<lparr>fork_new := True, servo_target := 140, current_servo := 140\<rparr>)
   \<and> smooth_fork (init\<lparr>fork_new := True, servo_target := 140, current_servo := 140\<rparr>)
       = Some (init\<lparr>servo_target := 140, current_servo := 140\<rparr>)"
  using smoother_idempotent [of "init\<lparr>fork_new := True, servo_target := 140, current_servo := 140\<rparr>"]
  by (simp add: init_def)

subsection \<open>Ramps that cannot end, and what the servo is handed\<close>




lemma smooth_step_fork_new: "fork_new (smooth_step s) = fork_new s"
  by (simp add: smooth_step_def setServo_def delay_def Let_def)

lemma smooth_step_out:
  "\<exists>a. out (smooth_step s) = out s @ [SetAngle a, Delay 20] \<and> 128 \<le> a \<and> a \<le> 180"
  by (simp add: smooth_step_def setServo_def delay_def Let_def)

lemma of_int_le_2p24: "c \<le> 2 ^ 24 \<Longrightarrow> (of_int c :: rat) \<le> 2 ^ 24"
  by (metis of_int_le_iff of_int_numeral of_int_power)





text \<open>Whatever the state, the steps of a ramp hand the servo angles in \<open>[128, 180]\<close> only.\<close>

lemma smooth_steps_out:
  "\<exists>es. out ((smooth_step ^^ n) s) = out s @ es \<and>
        (\<forall>a. SetAngle a \<in> set es \<longrightarrow> 128 \<le> a \<and> a \<le> 180)"
proof (induction n)
  case 0
  show ?case by simp
next
  case (Suc n)
  then obtain es where es: "out ((smooth_step ^^ n) s) = out s @ es"
    "\<forall>a. SetAngle a \<in> set es \<longrightarrow> 128 \<le> a \<and> a \<le> 180" by blast
  from smooth_step_out [of "(smooth_step ^^ n) s"] obtain a where
    a: "out (smooth_step ((smooth_step ^^ n) s)) = out ((smooth_step ^^ n) s) @ [SetAngle a, Delay 20]"
      "128 \<le> a" "a \<le> 180" by blast
  show ?case
    by (rule exI [of _ "es @ [SetAngle a, Delay 20]"]) (use es a in auto)
qed

lemma smooth_while_steps:
  assumes "smooth_while s = Some s'"
  shows "\<exists>n. s' = (smooth_step ^^ n) s"
proof (rule smooth_while.raw_induct [where P = "\<lambda>s s'. \<exists>n. s' = (smooth_step ^^ n) s", OF _ assms])
  fix f s s'
  assume IH: "\<And>x y. f x = Some y \<Longrightarrow> \<exists>n. y = (smooth_step ^^ n) x"
    and eq: "(if current_servo s \<noteq> servo_target s then f (smooth_step s) else Some s) = Some s'"
  show "\<exists>n. s' = (smooth_step ^^ n) s"
  proof (cases "current_servo s \<noteq> servo_target s")
    case True
    with eq have "f (smooth_step s) = Some s'" by simp
    from IH [OF this] obtain n where "s' = (smooth_step ^^ n) (smooth_step s)" by blast
    then have "s' = (smooth_step ^^ Suc n) s" by (simp add: funpow_swap1)
    then show ?thesis by blast
  next
    case False
    with eq have "s' = (smooth_step ^^ 0) s" by simp
    then show ?thesis by blast
  qed
qed



text \<open>
  C4. The claim fails: neither variable is kept inside \<open>[128, 180]\<close>, and a target outside
  is not clamped before the ramp. With no client at all, one iteration sets the target
  to 0; the bytes of 200.0 on the fork listener bring both the target and the position
  to 200.
\<close>

theorem fork_200_leaves_limits:
  "map_option (map_sum id servo_target) (loop no_clients init) = Some (Inr 0)
   \<and> map_option (map_sum id servo_target)
        (loop (no_clients\<lparr>fork_client := Some bytes_200\<rparr>) init) = Some (Inr 200)
   \<and> map_option (map_sum id current_servo)
        (loop (no_clients\<lparr>fork_client := Some bytes_200\<rparr>) init) = Some (Inr 200)"
proof -
  have v: "get_vel None 0 0 init = Inr (0, None, init)"
    by (simp add: get_vel_silent read_double_None) (simp add: init_def)
  have a: "get_ang_vel None 0 0 init = Inr (0, None, init)"
    by (simp add: get_ang_vel_silent read_double_None) (simp add: init_def)
  have f: "get_fork None init = Inr (0, None, init)"
    by (simp add: get_fork_silent read_double_None) (simp add: init_def)
  have idle: "loop no_clients init =
      Some (Inr (init\<lparr>servo_target := 0, out := [SetDuty M1 0, SetDuty M2 0]\<rparr>))"
    by (simp add: loop_def no_clients_def v a f int_to_float_def double_to_float_def drive_0
        smooth_fork_def)
      (simp add: init_def drive_0)
  have "read_double (Some bytes_200) = Some (Finite (of_int 200), Some [])"
    using decode_200 by (simp add: read_double_def bytes_200_def)
  then have "loop (no_clients\<lparr>fork_client := Some bytes_200\<rparr>) init =
     (case smooth_fork (init\<lparr>s_get_fork_pos := 200, fork_new := True, servo_target := of_int 200\<rparr>) of
        None \<Rightarrow> None
      | Some s \<Rightarrow> Some (Inr (s\<lparr>out := out s @ [SetDuty M1 0, SetDuty M2 0]\<rparr>)))"
    by (rule loop_fork_only) simp
  moreover have "\<exists>es. smooth_while (init\<lparr>s_get_fork_pos := 200, fork_new := True, servo_target := of_int 200\<rparr>)
      = Some (init\<lparr>s_get_fork_pos := 200, fork_new := True, servo_target := of_int 200,
                current_servo := of_int 200, out := es\<rparr>)"
    using smooth_while_ramp [of "init\<lparr>s_get_fork_pos := 200, fork_new := True, servo_target := of_int 200\<rparr>"
        128 200]
    by (simp add: init_def)
  ultimately show ?thesis
    using idle by (auto simp: smooth_fork_def)
qed

text \<open>
  C4, amended. The limits hold for what is handed to the servo, not for the variables:
  \<open>setServo\<close> replaces a value below 128 by 128 and a value above 180 by 180 and hands
  on any other value as it is, so after any number of steps of a ramp, and at the end of
  the smoothing block when it ends, every angle the servo was given lies in \<open>[128, 180]\<close>.
\<close>

theorem servo_angle_within_limits:
  "out (setServo dec s) =
      out s @ [SetAngle (if dec < 128 then 128 else if 180 < dec then 180 else dec)]
   \<and> (\<exists>es. out ((smooth_step ^^ n) s) = out s @ es \<and>
          (\<forall>a. SetAngle a \<in> set es \<longrightarrow> 128 \<le> a \<and> a \<le> 180))
   \<and> (smooth_fork s = Some s' \<longrightarrow>
        (\<exists>es. out s' = out s @ es \<and> (\<forall>a. SetAngle a \<in> set es \<longrightarrow> 128 \<le> a \<and> a \<le> 180)))"
proof (intro conjI impI)
  show "out (setServo dec s) =
      out s @ [SetAngle (if dec < 128 then 128 else if 180 < dec then 180 else dec)]"
    by (simp add: setServo_def Let_def max_def min_def)
next
  show "\<exists>es. out ((smooth_step ^^ n) s) = out s @ es \<and>
          (\<forall>a. SetAngle a \<in> set es \<longrightarrow> 128 \<le> a \<and> a \<le> 180)"
    by (rule smooth_steps_out)
next
  assume r: "smooth_fork s = Some s'"
  show "\<exists>es. out s' = out s @ es \<and> (\<forall>a. SetAngle a \<in> set es \<longrightarrow> 128 \<le> a \<and> a \<le> 180)"
  proof (cases "fork_new s")
    case False
    with r have "s' = s" by (simp add: smooth_fork_def)
    then show ?thesis by simp
  next
    case True
    with r obtain s1 where s1: "smooth_while s = Some s1" "s' = s1\<lparr>fork_new := False\<rparr>"
      by (auto simp: smooth_fork_def split: option.splits)
    from smooth_while_steps [OF s1(1)] obtain k where "s1 = (smooth_step ^^ k) s" by blast
    with s1(2) have "out s' = out ((smooth_step ^^ k) s)" by simp
    with smooth_steps_out [of k s] show ?thesis by simp
  qed
qed

theorem servo_angle_within_limits_witness:
  "out (setServo 200 init) = out init @ [SetAngle 180]
   \<and> out (setServo 0 init) = out init @ [SetAngle 128]
   \<and> out (setServo 150 init) = out init @ [SetAngle 150]
   \<and> smooth_fork (init\<lparr>fork_new := True, servo_target := 182, current_servo := 179\<rparr>)
       = Some (init\<lparr>servo_target := 182, current_servo := 182,
            out := [SetAngle 180, Delay 20, SetAngle 180, Delay 20, SetAngle 180, Delay 20]\<rparr>)
   \<and> (\<exists>es. [SetAngle 180, Delay 20, SetAngle 180, Delay 20, SetAngle 180, Delay 20]
             = out (init\<lparr>fork_new := True, servo_target := 182, current_servo := 179\<rparr>) @ es
           \<and> SetAngle 180 \<in> set es \<and> (128 :: rat) \<le> 180 \<and> (180 :: rat) \<le> 180)"
proof -
  let ?s = "init\<lparr>fork_new := True, servo_target := 182, current_servo := 179\<rparr>"
  let ?s' = "init\<lparr>servo_target := 182, current_servo := 182,
            out := [SetAngle 180, Delay 20, SetAngle 180, Delay 20, SetAngle 180, Delay 20]\<rparr>"
  have run: "smooth_fork ?s = Some ?s'"
    using smooth_while_ramp [of ?s 179 182]
    by (simp add: smooth_fork_def init_def)
  from servo_angle_within_limits [of 200 ?s 0 ?s'] run
  have "\<exists>es. out ?s' = out ?s @ es \<and> (\<forall>a. SetAngle a \<in> set es \<longrightarrow> 128 \<le> a \<and> a \<le> 180)"
    by blast
  then have "\<exists>es. [SetAngle 180, Delay 20, SetAngle 180, Delay 20, SetAngle 180, Delay 20]
             = out ?s @ es \<and> SetAngle 180 \<in> set es \<and> (128 :: rat) \<le> 180 \<and> (180 :: rat) \<le> 180"
    by (auto simp: init_def)
  with run servo_angle_within_limits [of 200 init 0 init]
    servo_angle_within_limits [of 0 init 0 init]
    servo_angle_within_limits [of 150 init 0 init]
  show ?thesis by simp
qed

subsection \<open>What the listeners leave alone\<close>

lemma read_double_None_iff:
  "read_double c = None \<longleftrightarrow> c = None \<or> (\<exists>buf. c = Some buf \<and> length buf < 8)"
  by (auto simp: read_double_def split: option.splits)

lemma get_vel_frame:
  assumes "get_vel c t_rx t_chk s = Inr (v, c', s1)"
  shows "\<exists>x t. s1 = s\<lparr>s_get_vel_vel := x, s_get_vel_time := t\<rparr>"
proof (cases "read_double c")
  case None
  with assms have "s1 = s\<lparr>s_get_vel_vel := s_get_vel_vel s1, s_get_vel_time := s_get_vel_time s\<rparr>"
    by (auto simp: get_vel_silent split: if_splits)
  then show ?thesis by blast
next
  case (Some r)
  obtain d c1 where r: "r = (d, c1)" by (cases r)
  with Some assms obtain z where "double_to_int d = Inr z"
    by (auto simp: get_vel_def split: sum.splits)
  with Some r assms have "s1 = s\<lparr>s_get_vel_vel := s_get_vel_vel s1, s_get_vel_time := t_rx\<rparr>"
    by (auto simp: get_vel_def Let_def split: if_splits)
  then show ?thesis by blast
qed

lemma get_ang_vel_frame:
  assumes "get_ang_vel c t_rx t_chk s = Inr (v, c', s1)"
  shows "\<exists>x t. s1 = s\<lparr>s_get_ang_vel := x, s_get_ang_time := t\<rparr>"
proof (cases "read_double c")
  case None
  with assms have "s1 = s\<lparr>s_get_ang_vel := s_get_ang_vel s1, s_get_ang_time := s_get_ang_time s\<rparr>"
    by (auto simp: get_ang_vel_silent split: if_splits)
  then show ?thesis by blast
next
  case (Some r)
  obtain d c1 where r: "r = (d, c1)" by (cases r)
  with Some assms obtain z where "double_to_int d = Inr z"
    by (auto simp: get_ang_vel_def split: sum.splits)
  with Some r assms have "s1 = s\<lparr>s_get_ang_vel := s_get_ang_vel s1, s_get_ang_time := t_rx\<rparr>"
    by (auto simp: get_ang_vel_def Let_def split: if_splits)
  then show ?thesis by blast
qed

lemma vels_drive_wheels_frame:
  assumes "vels_drive_wheels lin_v ang_v s = Inr s'"
  shows "\<exists>l r. s' = s\<lparr>out := out s @ [SetDuty M1 (- r), SetDuty M2 l]\<rparr>"
  using assms
  by (auto simp: vels_drive_wheels_def driveMotors_def split: sum.splits if_splits)

text \<open>
  An iteration in which the fork listener has no number and none is pending: the
  smoothing block is skipped, whatever the clock and the other two listeners do.
\<close>

lemma loop_fork_silent:
  assumes "read_double (fork_client p) = None" and "\<not> fork_new s"
  shows "loop p s \<noteq> None"
    and "loop p s = Some (Inr s') \<Longrightarrow>
      \<not> fork_new s' \<and> s_get_fork_pos s' = s_get_fork_pos s \<and> current_servo s' = current_servo s
      \<and> servo_target s' = f32 (of_int (s_get_fork_pos s))
      \<and> (\<exists>l r. out s' = out s @ [SetDuty M1 (- r), SetDuty M2 l])"
proof -
  show "loop p s \<noteq> None"
  proof (cases "get_vel (vel_client p) (vel_rx p) (vel_chk p) s")
    case (Inl e)
    then show ?thesis by (simp add: loop_def)
  next
    case (Inr r1)
    obtain v c1 s1 where r1: "r1 = (v, c1, s1)" by (cases r1)
    from get_vel_frame [OF Inr [unfolded r1]] have f1: "\<not> fork_new s1"
      using assms(2) by auto
    show ?thesis
    proof (cases "get_ang_vel (ang_client p) (ang_rx p) (ang_chk p) s1")
      case (Inl e)
      with Inr r1 show ?thesis by (simp add: loop_def)
    next
      case (Inr r2)
      obtain a c2 s2 where r2: "r2 = (a, c2, s2)" by (cases r2)
      from get_ang_vel_frame [OF Inr [unfolded r2]] have f2: "\<not> fork_new s2"
        using f1 by auto
      from \<open>get_vel (vel_client p) (vel_rx p) (vel_chk p) s = Inr r1\<close> r1 Inr r2 f2 assms(1)
      show ?thesis
        by (simp add: loop_def get_fork_silent smooth_fork_def Let_def)
    qed
  qed
next
  assume run: "loop p s = Some (Inr s')"
  then obtain v c1 s1 where g1: "get_vel (vel_client p) (vel_rx p) (vel_chk p) s = Inr (v, c1, s1)"
    by (auto simp: loop_def split: sum.splits)
  with run obtain a c2 s2 where
    g2: "get_ang_vel (ang_client p) (ang_rx p) (ang_chk p) s1 = Inr (a, c2, s2)"
    by (auto simp: loop_def split: sum.splits)
  from get_vel_frame [OF g1] obtain x t where s1: "s1 = s\<lparr>s_get_vel_vel := x, s_get_vel_time := t\<rparr>"
    by blast
  from get_ang_vel_frame [OF g2] obtain y u where s2: "s2 = s1\<lparr>s_get_ang_vel := y, s_get_ang_time := u\<rparr>"
    by blast
  have nf: "\<not> fork_new s2" using assms(2) s1 s2 by simp
  let ?s4 = "s2\<lparr>servo_target := f32 (of_int (s_get_fork_pos s2))\<rparr>"
  from run g1 g2 assms(1) nf
  have "vels_drive_wheels (int_to_float v) (int_to_float a) ?s4 = Inr s'"
    by (simp add: loop_def get_fork_silent smooth_fork_def Let_def double_to_float_def)
  from vels_drive_wheels_frame [OF this] obtain l r where
    "s' = ?s4\<lparr>out := out ?s4 @ [SetDuty M1 (- r), SetDuty M2 l]\<rparr>" by blast
  then show "\<not> fork_new s' \<and> s_get_fork_pos s' = s_get_fork_pos s \<and> current_servo s' = current_servo s
      \<and> servo_target s' = f32 (of_int (s_get_fork_pos s))
      \<and> (\<exists>l r. out s' = out s @ [SetDuty M1 (- r), SetDuty M2 l])"
    using nf s1 s2 by auto
qed

lemma run_fork_silent:
  assumes "\<forall>p \<in> set ps. read_double (fork_client p) = None" and "\<not> fork_new s"
  shows "run ps s \<noteq> None"
    and "run ps s = Some (Inr s') \<Longrightarrow>
      \<not> fork_new s' \<and> s_get_fork_pos s' = s_get_fork_pos s \<and> current_servo s' = current_servo s
      \<and> (ps \<noteq> [] \<longrightarrow> servo_target s' = f32 (of_int (s_get_fork_pos s)))
      \<and> (\<exists>es. out s' = out s @ es \<and> (\<forall>e \<in> set es. \<exists>m d. e = SetDuty m d))"
  using assms
proof (induction ps arbitrary: s)
  case Nil
  { case 1 show ?case by simp }
  { case 2 then show ?case by simp }
next
  case (Cons p ps)
  { case 1
    then have sil: "read_double (fork_client p) = None"
      and rest: "\<forall>p \<in> set ps. read_double (fork_client p) = None" by simp_all
    show ?case
    proof (cases "loop p s")
      case None
      with loop_fork_silent(1) [OF sil 1(2)] show ?thesis by simp
    next
      case (Some r)
      show ?thesis
      proof (cases r)
        case (Inl e)
        with Some show ?thesis by simp
      next
        case (Inr s1)
        with Some loop_fork_silent(2) [OF sil 1(2), of s1] have "\<not> fork_new s1" by simp
        from Cons.IH(1) [OF rest this] Some Inr show ?thesis by simp
      qed
    qed }
  { case 2
    then have sil: "read_double (fork_client p) = None"
      and rest: "\<forall>p \<in> set ps. read_double (fork_client p) = None" by simp_all
    from 2(1) obtain s1 where l: "loop p s = Some (Inr s1)" and r: "run ps s1 = Some (Inr s')"
      by (auto split: option.splits sum.splits)
    from loop_fork_silent(2) [OF sil 2(3) l] obtain l1 r1 where
      s1: "\<not> fork_new s1" "s_get_fork_pos s1 = s_get_fork_pos s" "current_servo s1 = current_servo s"
        "servo_target s1 = f32 (of_int (s_get_fork_pos s))"
        "out s1 = out s @ [SetDuty M1 (- r1), SetDuty M2 l1]"
      by blast
    from Cons.IH(2) [OF r rest s1(1)] obtain es where
      s': "\<not> fork_new s'" "s_get_fork_pos s' = s_get_fork_pos s1" "current_servo s' = current_servo s1"
        "ps \<noteq> [] \<longrightarrow> servo_target s' = f32 (of_int (s_get_fork_pos s1))"
        "out s' = out s1 @ es" "\<forall>e \<in> set es. \<exists>m d. e = SetDuty m d"
      by blast
    have tgt: "servo_target s' = f32 (of_int (s_get_fork_pos s))"
    proof (cases "ps = []")
      case True
      with r have "s' = s1" by simp
      with s1 show ?thesis by simp
    next
      case False
      with s' s1 show ?thesis by simp
    qed
    have "out s' = out s @ ([SetDuty M1 (- r1), SetDuty M2 l1] @ es)"
      using s1 s' by simp
    moreover have "\<forall>e \<in> set ([SetDuty M1 (- r1), SetDuty M2 l1] @ es). \<exists>m d. e = SetDuty m d"
      using s'(6) by auto
    ultimately have "\<exists>es. out s' = out s @ es \<and> (\<forall>e \<in> set es. \<exists>m d. e = SetDuty m d)"
      by blast
    with s1 s' tgt show ?case by simp }
qed

text \<open>
  C3. The liveness gate of the two velocity listeners. A poll that finds no number (no
  client, or fewer than eight bytes) returns the stored value when the clock is at most
  500 ms past the stored time stamp, and 0 when it is more than 500 ms past it: exactly
  500 ms still gives the stored value, 501 ms gives 0. The test is made on every poll
  and overwrites the stored value, so once 0 is stored every later poll without a number
  returns 0, whatever the clock reads. A poll that finds a number stamps it and applies
  the same test to the new stamp. The subtraction is that of the 32-bit clock.
\<close>

theorem velocity_liveness_gate:
  assumes "c = None \<or> (\<exists>buf. c = Some buf \<and> length buf < 8)"
  shows "get_vel c t_rx t_chk s =
           (if t_chk - s_get_vel_time s \<le> 500 then Inr (s_get_vel_vel s, c, s)
            else Inr (0, c, s\<lparr>s_get_vel_vel := 0\<rparr>))
       \<and> get_ang_vel c t_rx t_chk s =
           (if t_chk - s_get_ang_time s \<le> 500 then Inr (s_get_ang_vel s, c, s)
            else Inr (0, c, s\<lparr>s_get_ang_vel := 0\<rparr>))
       \<and> get_vel c t_rx (s_get_vel_time s + 500) s = Inr (s_get_vel_vel s, c, s)
       \<and> get_vel c t_rx (s_get_vel_time s + 501) s = Inr (0, c, s\<lparr>s_get_vel_vel := 0\<rparr>)
       \<and> get_ang_vel c t_rx (s_get_ang_time s + 500) s = Inr (s_get_ang_vel s, c, s)
       \<and> get_ang_vel c t_rx (s_get_ang_time s + 501) s = Inr (0, c, s\<lparr>s_get_ang_vel := 0\<rparr>)
       \<and> (s_get_vel_vel s = 0 \<longrightarrow> get_vel c t_rx t_chk s = Inr (0, c, s))
       \<and> (s_get_ang_vel s = 0 \<longrightarrow> get_ang_vel c t_rx t_chk s = Inr (0, c, s))
       \<and> (8 \<le> length b \<and> decode_double (take 8 b) = Finite q
            \<and> INT_MIN \<le> trunc q \<and> trunc q \<le> INT_MAX \<longrightarrow>
          get_vel (Some b) t_rx t_chk s =
            (if t_chk - t_rx \<le> 500
             then Inr (trunc q, Some (drop 8 b), s\<lparr>s_get_vel_vel := trunc q, s_get_vel_time := t_rx\<rparr>)
             else Inr (0, Some (drop 8 b), s\<lparr>s_get_vel_vel := 0, s_get_vel_time := t_rx\<rparr>))
          \<and> get_ang_vel (Some b) t_rx t_chk s =
            (if t_chk - t_rx \<le> 500
             then Inr (trunc q, Some (drop 8 b), s\<lparr>s_get_ang_vel := trunc q, s_get_ang_time := t_rx\<rparr>)
             else Inr (0, Some (drop 8 b), s\<lparr>s_get_ang_vel := 0, s_get_ang_time := t_rx\<rparr>)))"
proof -
  from assms have sil: "read_double c = None"
    by (simp add: read_double_None_iff)
  have w: "\<not> (500 :: 32 word) < 500" "(500 :: 32 word) < 501"
    by simp_all
  have z1: "s_get_vel_vel s = 0 \<Longrightarrow> s\<lparr>s_get_vel_vel := 0\<rparr> = s"
    and z2: "s_get_ang_vel s = 0 \<Longrightarrow> s\<lparr>s_get_ang_vel := 0\<rparr> = s"
    by simp_all
  have msg: "get_vel (Some b) t_rx t_chk s =
            (if t_chk - t_rx \<le> 500
             then Inr (trunc q, Some (drop 8 b), s\<lparr>s_get_vel_vel := trunc q, s_get_vel_time := t_rx\<rparr>)
             else Inr (0, Some (drop 8 b), s\<lparr>s_get_vel_vel := 0, s_get_vel_time := t_rx\<rparr>))
          \<and> get_ang_vel (Some b) t_rx t_chk s =
            (if t_chk - t_rx \<le> 500
             then Inr (trunc q, Some (drop 8 b), s\<lparr>s_get_ang_vel := trunc q, s_get_ang_time := t_rx\<rparr>)
             else Inr (0, Some (drop 8 b), s\<lparr>s_get_ang_vel := 0, s_get_ang_time := t_rx\<rparr>))"
    if "8 \<le> length b \<and> decode_double (take 8 b) = Finite q
            \<and> INT_MIN \<le> trunc q \<and> trunc q \<le> INT_MAX"
  proof -
    from that have "read_double (Some b) = Some (Finite q, Some (drop 8 b))"
      by (simp add: read_double_Some)
    from get_vel_message [OF this] get_ang_vel_message [OF this] that show ?thesis
      by (simp add: not_less [symmetric])
  qed
  show ?thesis
    using msg
    by (simp add: get_vel_silent [OF sil] get_ang_vel_silent [OF sil] not_less [symmetric] w z1 z2)
qed

theorem velocity_liveness_gate_witness:
  "((None :: client) = None \<or> (\<exists>buf. (None :: client) = Some buf \<and> length buf < 8))
   \<and> get_vel None 0 1500 (init\<lparr>s_get_vel_vel := 7, s_get_vel_time := 1000\<rparr>)
       = Inr (7, None, init\<lparr>s_get_vel_vel := 7, s_get_vel_time := 1000\<rparr>)
   \<and> get_vel None 0 1501 (init\<lparr>s_get_vel_vel := 7, s_get_vel_time := 1000\<rparr>)
       = Inr (0, None, init\<lparr>s_get_vel_vel := 0, s_get_vel_time := 1000\<rparr>)
   \<and> get_ang_vel None 0 1500 (init\<lparr>s_get_ang_vel := 7, s_get_ang_time := 1000\<rparr>)
       = Inr (7, None, init\<lparr>s_get_ang_vel := 7, s_get_ang_time := 1000\<rparr>)
   \<and> get_ang_vel None 0 1501 (init\<lparr>s_get_ang_vel := 7, s_get_ang_time := 1000\<rparr>)
       = Inr (0, None, init\<lparr>s_get_ang_vel := 0, s_get_ang_time := 1000\<rparr>)
   \<and> s_get_vel_vel (init\<lparr>s_get_vel_time := 1000\<rparr>) = 0
   \<and> get_vel None 0 1200 (init\<lparr>s_get_vel_time := 1000\<rparr>)
       = Inr (0, None, init\<lparr>s_get_vel_time := 1000\<rparr>)
   \<and> s_get_ang_vel (init\<lparr>s_get_ang_time := 1000\<rparr>) = 0
   \<and> get_ang_vel None 0 1200 (init\<lparr>s_get_ang_time := 1000\<rparr>)
       = Inr (0, None, init\<lparr>s_get_ang_time := 1000\<rparr>)
   \<and> 8 \<le> length bytes_150 \<and> decode_double (take 8 bytes_150) = Finite 150
   \<and> INT_MIN \<le> trunc 150 \<and> trunc 150 \<le> INT_MAX
   \<and> get_vel (Some bytes_150) 2000 2001 init
       = Inr (150, Some [], init\<lparr>s_get_vel_vel := 150, s_get_vel_time := 2000\<rparr>)
   \<and> get_ang_vel (Some bytes_150) 2000 2001 init
       = Inr (150, Some [], init\<lparr>s_get_ang_vel := 150, s_get_ang_time := 2000\<rparr>)"
proof -
  have d: "decode_double (take 8 bytes_150) = Finite 150" "length bytes_150 = 8"
    using decode_150 by (simp_all add: bytes_150_def)
  have w: "(1500 :: 32 word) - 1000 = 500" "(1501 :: 32 word) - 1000 = 501"
    "(1200 :: 32 word) - 1000 = 200" "(2001 :: 32 word) - 2000 = 1"
    by simp_all
  have v1: "get_vel None 0 1500 (init\<lparr>s_get_vel_vel := 7, s_get_vel_time := 1000\<rparr>)
       = Inr (7, None, init\<lparr>s_get_vel_vel := 7, s_get_vel_time := 1000\<rparr>)"
    using velocity_liveness_gate [of None 0 1500 "init\<lparr>s_get_vel_vel := 7, s_get_vel_time := 1000\<rparr>"
        bytes_150 150]
    by (simp add: w)
  have v2: "get_vel None 0 1501 (init\<lparr>s_get_vel_vel := 7, s_get_vel_time := 1000\<rparr>)
       = Inr (0, None, init\<lparr>s_get_vel_vel := 0, s_get_vel_time := 1000\<rparr>)"
    using velocity_liveness_gate [of None 0 1501 "init\<lparr>s_get_vel_vel := 7, s_get_vel_time := 1000\<rparr>"
        bytes_150 150]
    by (simp add: w)
  have a1: "get_ang_vel None 0 1500 (init\<lparr>s_get_ang_vel := 7, s_get_ang_time := 1000\<rparr>)
       = Inr (7, None, init\<lparr>s_get_ang_vel := 7, s_get_ang_time := 1000\<rparr>)"
    using velocity_liveness_gate [of None 0 1500 "init\<lparr>s_get_ang_vel := 7, s_get_ang_time := 1000\<rparr>"
        bytes_150 150]
    by (simp add: w)
  have a2: "get_ang_vel None 0 1501 (init\<lparr>s_get_ang_vel := 7, s_get_ang_time := 1000\<rparr>)
       = Inr (0, None, init\<lparr>s_get_ang_vel := 0, s_get_ang_time := 1000\<rparr>)"
    using velocity_liveness_gate [of None 0 1501 "init\<lparr>s_get_ang_vel := 7, s_get_ang_time := 1000\<rparr>"
        bytes_150 150]
    by (simp add: w)
  have z: "s_get_vel_vel (init\<lparr>s_get_vel_time := 1000\<rparr>) = 0"
    "s_get_ang_vel (init\<lparr>s_get_ang_time := 1000\<rparr>) = 0"
    by (simp_all add: init_def)
  have v3: "get_vel None 0 1200 (init\<lparr>s_get_vel_time := 1000\<rparr>)
       = Inr (0, None, init\<lparr>s_get_vel_time := 1000\<rparr>)"
    using velocity_liveness_gate [of None 0 1200 "init\<lparr>s_get_vel_time := 1000\<rparr>" bytes_150 150] z
    by blast
  have a3: "get_ang_vel None 0 1200 (init\<lparr>s_get_ang_time := 1000\<rparr>)
       = Inr (0, None, init\<lparr>s_get_ang_time := 1000\<rparr>)"
    using velocity_liveness_gate [of None 0 1200 "init\<lparr>s_get_ang_time := 1000\<rparr>" bytes_150 150] z
    by blast
  have r: "INT_MIN \<le> trunc 150" "trunc 150 \<le> INT_MAX"
    by (simp_all add: INT_MIN_def INT_MAX_def)
  have m: "get_vel (Some bytes_150) 2000 2001 init
       = Inr (150, Some [], init\<lparr>s_get_vel_vel := 150, s_get_vel_time := 2000\<rparr>)
     \<and> get_ang_vel (Some bytes_150) 2000 2001 init
       = Inr (150, Some [], init\<lparr>s_get_ang_vel := 150, s_get_ang_time := 2000\<rparr>)"
    using velocity_liveness_gate [of None 2000 2001 init bytes_150 150] d r
    by (simp add: w)
  from v1 v2 a1 a2 z v3 a3 d r m show ?thesis
    by simp
qed

lemma trunc_exact_iff: "of_int (trunc q) = q \<longleftrightarrow> q \<in> \<int>"
proof
  assume "of_int (trunc q) = q"
  then show "q \<in> \<int>" by (metis Ints_of_int)
next
  assume "q \<in> \<int>"
  then obtain n where "q = of_int n" by (auto elim: Ints_cases)
  then show "of_int (trunc q) = q" by simp
qed

lemma trunc_bounds: "\<bar>of_int (trunc q)\<bar> \<le> \<bar>q\<bar> \<and> \<bar>q - of_int (trunc q)\<bar> < 1"
  unfolding trunc_def by (cases "0 \<le> q") (simp_all, linarith+)

text \<open>
  C5. The claim fails where it says that the channel exposes the decoded double and not a
  truncation of it: the bytes of 1.5 give 1, on the velocity listener and on the fork
  listener alike.
\<close>

theorem number_1_5_is_truncated:
  "decode_double bytes_1_5 = Finite (3 / 2)
   \<and> map_sum id fst (get_vel (Some bytes_1_5) 0 0 init) = Inr 1
   \<and> map_sum id fst (get_ang_vel (Some bytes_1_5) 0 0 init) = Inr 1
   \<and> map_sum id fst (get_fork (Some bytes_1_5) init) = Inr 1"
proof -
  have r: "read_double (Some bytes_1_5) = Some (Finite (3 / 2), Some [])"
    using decode_1_5 by (simp add: read_double_def bytes_1_5_def)
  have t: "trunc (3 / 2) = 1"
    by (simp add: trunc_def) linarith
  then have b: "INT_MIN \<le> trunc (3 / 2)" "trunc (3 / 2) \<le> INT_MAX"
    by (simp_all add: INT_MIN_def INT_MAX_def)
  show ?thesis
    using get_vel_message [OF r b, of 0 0 init] get_ang_vel_message [OF r b, of 0 0 init]
      get_fork_message [OF r b, of init]
    by (simp add: decode_1_5 t)
qed

text \<open>
  C5, amended. With a client and at least eight bytes buffered, a listener takes exactly
  eight bytes, reads them as a little-endian binary64 number and stores that number
  converted to \<^verbatim>\<open>int\<close>: the fraction is discarded (the stored value is the number itself
  exactly when the number is an integer), and the conversion is undefined for a number
  that is not finite or whose integer part is not an \<^verbatim>\<open>int\<close>. \<open>get_fork\<close> returns the stored
  \<^verbatim>\<open>int\<close> and marks it new; \<open>get_vel\<close> and \<open>get_ang_vel\<close> stamp it with the clock and return
  it through the timeout test of the same call, which reads the clock again: the stored
  \<^verbatim>\<open>int\<close> is returned when the second reading is at most 500 ms after the stamp, and 0 is
  stored and returned otherwise. With no client or fewer than eight bytes nothing is
  taken and the stored value stays, or is set to 0 by the timeout test.
\<close>

theorem listener_stores_truncated_number:
  "(8 \<le> length buf \<and> decode_double (take 8 buf) = Finite q
      \<and> INT_MIN \<le> trunc q \<and> trunc q \<le> INT_MAX \<longrightarrow>
      get_fork (Some buf) s =
        Inr (of_int (trunc q), Some (drop 8 buf), s\<lparr>s_get_fork_pos := trunc q, fork_new := True\<rparr>)
      \<and> (t_chk - t_rx \<le> 500 \<longrightarrow>
          get_vel (Some buf) t_rx t_chk s =
            Inr (trunc q, Some (drop 8 buf), s\<lparr>s_get_vel_vel := trunc q, s_get_vel_time := t_rx\<rparr>)
          \<and> get_ang_vel (Some buf) t_rx t_chk s =
            Inr (trunc q, Some (drop 8 buf), s\<lparr>s_get_ang_vel := trunc q, s_get_ang_time := t_rx\<rparr>))
      \<and> (500 < t_chk - t_rx \<longrightarrow>
          get_vel (Some buf) t_rx t_chk s =
            Inr (0, Some (drop 8 buf), s\<lparr>s_get_vel_vel := 0, s_get_vel_time := t_rx\<rparr>)
          \<and> get_ang_vel (Some buf) t_rx t_chk s =
            Inr (0, Some (drop 8 buf), s\<lparr>s_get_ang_vel := 0, s_get_ang_time := t_rx\<rparr>))
      \<and> \<bar>of_int (trunc q)\<bar> \<le> \<bar>q\<bar> \<and> \<bar>q - of_int (trunc q)\<bar> < 1
      \<and> (of_int (trunc q) = q \<longleftrightarrow> q \<in> \<int>))
   \<and> (8 \<le> length buf \<and> (decode_double (take 8 buf) = NonFinite
         \<or> decode_double (take 8 buf) = Finite q \<and> (trunc q < INT_MIN \<or> INT_MAX < trunc q)) \<longrightarrow>
      get_fork (Some buf) s = Inl UndefinedConversion
      \<and> get_vel (Some buf) t_rx t_chk s = Inl UndefinedConversion
      \<and> get_ang_vel (Some buf) t_rx t_chk s = Inl UndefinedConversion)
   \<and> (c = None \<or> (\<exists>b. c = Some b \<and> length b < 8) \<longrightarrow>
      get_fork c s = Inr (of_int (s_get_fork_pos s), c, s)
      \<and> (\<exists>v. get_vel c t_rx t_chk s = Inr (v, c, s\<lparr>s_get_vel_vel := v\<rparr>)
              \<and> (v = s_get_vel_vel s \<or> v = 0))
      \<and> (\<exists>v. get_ang_vel c t_rx t_chk s = Inr (v, c, s\<lparr>s_get_ang_vel := v\<rparr>)
              \<and> (v = s_get_ang_vel s \<or> v = 0)))"
proof (intro conjI impI)
  assume h: "8 \<le> length buf \<and> decode_double (take 8 buf) = Finite q
      \<and> INT_MIN \<le> trunc q \<and> trunc q \<le> INT_MAX"
  then have r: "read_double (Some buf) = Some (Finite q, Some (drop 8 buf))"
    by (simp add: read_double_Some)
  from h have b: "INT_MIN \<le> trunc q" "trunc q \<le> INT_MAX" by simp_all
  show "get_fork (Some buf) s =
        Inr (of_int (trunc q), Some (drop 8 buf), s\<lparr>s_get_fork_pos := trunc q, fork_new := True\<rparr>)"
    by (rule get_fork_message [OF r b])
  {
    assume "t_chk - t_rx \<le> 500"
    then have n: "\<not> 500 < t_chk - t_rx" by simp
    show "get_vel (Some buf) t_rx t_chk s =
        Inr (trunc q, Some (drop 8 buf), s\<lparr>s_get_vel_vel := trunc q, s_get_vel_time := t_rx\<rparr>)"
      using get_vel_message [OF r b, of t_rx t_chk s] n by simp
    show "get_ang_vel (Some buf) t_rx t_chk s =
        Inr (trunc q, Some (drop 8 buf), s\<lparr>s_get_ang_vel := trunc q, s_get_ang_time := t_rx\<rparr>)"
      using get_ang_vel_message [OF r b, of t_rx t_chk s] n by simp
  }
  {
    assume l: "500 < t_chk - t_rx"
    show "get_vel (Some buf) t_rx t_chk s =
        Inr (0, Some (drop 8 buf), s\<lparr>s_get_vel_vel := 0, s_get_vel_time := t_rx\<rparr>)"
      using get_vel_message [OF r b, of t_rx t_chk s] l by simp
    show "get_ang_vel (Some buf) t_rx t_chk s =
        Inr (0, Some (drop 8 buf), s\<lparr>s_get_ang_vel := 0, s_get_ang_time := t_rx\<rparr>)"
      using get_ang_vel_message [OF r b, of t_rx t_chk s] l by simp
  }
  show "\<bar>of_int (trunc q)\<bar> \<le> \<bar>q\<bar>" "\<bar>q - of_int (trunc q)\<bar> < 1"
    using trunc_bounds [of q] by simp_all
  show "of_int (trunc q) = q \<longleftrightarrow> q \<in> \<int>"
    by (rule trunc_exact_iff)
next
  assume h: "8 \<le> length buf \<and> (decode_double (take 8 buf) = NonFinite
         \<or> decode_double (take 8 buf) = Finite q \<and> (trunc q < INT_MIN \<or> INT_MAX < trunc q))"
  then have "read_double (Some buf) = Some (decode_double (take 8 buf), Some (drop 8 buf))"
    and "double_to_int (decode_double (take 8 buf)) = Inl UndefinedConversion"
    by (auto simp: read_double_Some double_to_int_def float_to_int_def)
  then show "get_fork (Some buf) s = Inl UndefinedConversion"
    "get_vel (Some buf) t_rx t_chk s = Inl UndefinedConversion"
    "get_ang_vel (Some buf) t_rx t_chk s = Inl UndefinedConversion"
    by (simp_all add: get_fork_def get_vel_def get_ang_vel_def)
next
  assume "c = None \<or> (\<exists>b. c = Some b \<and> length b < 8)"
  then have sil: "read_double c = None"
    by (simp add: read_double_None_iff)
  show "get_fork c s = Inr (of_int (s_get_fork_pos s), c, s)"
    by (rule get_fork_silent [OF sil])
  show "\<exists>v. get_vel c t_rx t_chk s = Inr (v, c, s\<lparr>s_get_vel_vel := v\<rparr>)
              \<and> (v = s_get_vel_vel s \<or> v = 0)"
    by (simp add: get_vel_silent [OF sil])
  show "\<exists>v. get_ang_vel c t_rx t_chk s = Inr (v, c, s\<lparr>s_get_ang_vel := v\<rparr>)
              \<and> (v = s_get_ang_vel s \<or> v = 0)"
    by (simp add: get_ang_vel_silent [OF sil])
qed

theorem listener_stores_truncated_number_witness:
  "8 \<le> length (bytes_1_5 @ [1, 2, 3]) \<and> decode_double (take 8 (bytes_1_5 @ [1, 2, 3])) = Finite (3 / 2)
   \<and> INT_MIN \<le> trunc (3 / 2) \<and> trunc (3 / 2) \<le> INT_MAX \<and> trunc (3 / 2) = 1
   \<and> get_fork (Some (bytes_1_5 @ [1, 2, 3])) init =
        Inr (1, Some [1, 2, 3], init\<lparr>s_get_fork_pos := 1, fork_new := True\<rparr>)
   \<and> (10 - 9 :: 32 word) \<le> 500
   \<and> get_vel (Some (bytes_1_5 @ [1, 2, 3])) 9 10 init =
        Inr (1, Some [1, 2, 3], init\<lparr>s_get_vel_vel := 1, s_get_vel_time := 9\<rparr>)
   \<and> get_ang_vel (Some (bytes_1_5 @ [1, 2, 3])) 9 10 init =
        Inr (1, Some [1, 2, 3], init\<lparr>s_get_ang_vel := 1, s_get_ang_time := 9\<rparr>)
   \<and> 500 < (510 - 9 :: 32 word)
   \<and> get_vel (Some (bytes_1_5 @ [1, 2, 3])) 9 510 init =
        Inr (0, Some [1, 2, 3], init\<lparr>s_get_vel_vel := 0, s_get_vel_time := 9\<rparr>)
   \<and> get_ang_vel (Some (bytes_1_5 @ [1, 2, 3])) 9 510 init =
        Inr (0, Some [1, 2, 3], init\<lparr>s_get_ang_vel := 0, s_get_ang_time := 9\<rparr>)
   \<and> 8 \<le> length bytes_inf \<and> decode_double (take 8 bytes_inf) = NonFinite
   \<and> get_fork (Some bytes_inf) init = Inl UndefinedConversion
   \<and> get_vel (Some bytes_inf) 0 0 init = Inl UndefinedConversion
   \<and> get_ang_vel (Some bytes_inf) 0 0 init = Inl UndefinedConversion
   \<and> length [1, 2, 3 :: byte] < 8
   \<and> get_fork (Some [1, 2, 3]) init = Inr (0, Some [1, 2, 3], init)
   \<and> get_vel (Some [1, 2, 3]) 0 0 init = Inr (0, Some [1, 2, 3], init)
   \<and> get_ang_vel (Some [1, 2, 3]) 0 0 init = Inr (0, Some [1, 2, 3], init)"
proof -
  have d: "decode_double (take 8 (bytes_1_5 @ [1, 2, 3])) = Finite (3 / 2)"
    "drop 8 (bytes_1_5 @ [1, 2, 3]) = [1, 2, 3]" "8 \<le> length (bytes_1_5 @ [1, 2, 3])"
    using decode_1_5 by (simp_all add: bytes_1_5_def)
  have t: "trunc (3 / 2) = 1"
    by (simp add: trunc_def) linarith
  then have b: "INT_MIN \<le> trunc (3 / 2)" "trunc (3 / 2) \<le> INT_MAX"
    by (simp_all add: INT_MIN_def INT_MAX_def)
  have i: "decode_double (take 8 bytes_inf) = NonFinite" "8 \<le> length bytes_inf"
    by (simp_all add: bytes_inf_def decode_double_def)
  have k: "(10 - 9 :: 32 word) \<le> 500" "500 < (510 - 9 :: 32 word)"
    by simp_all
  have m: "get_fork (Some (bytes_1_5 @ [1, 2, 3])) init =
        Inr (1, Some [1, 2, 3], init\<lparr>s_get_fork_pos := 1, fork_new := True\<rparr>)
   \<and> get_vel (Some (bytes_1_5 @ [1, 2, 3])) 9 10 init =
        Inr (1, Some [1, 2, 3], init\<lparr>s_get_vel_vel := 1, s_get_vel_time := 9\<rparr>)
   \<and> get_ang_vel (Some (bytes_1_5 @ [1, 2, 3])) 9 10 init =
        Inr (1, Some [1, 2, 3], init\<lparr>s_get_ang_vel := 1, s_get_ang_time := 9\<rparr>)"
    using listener_stores_truncated_number [of "bytes_1_5 @ [1, 2, 3]" "3 / 2" init 10 9 None] d b
    by (simp add: t)
  have m': "get_vel (Some (bytes_1_5 @ [1, 2, 3])) 9 510 init =
        Inr (0, Some [1, 2, 3], init\<lparr>s_get_vel_vel := 0, s_get_vel_time := 9\<rparr>)
   \<and> get_ang_vel (Some (bytes_1_5 @ [1, 2, 3])) 9 510 init =
        Inr (0, Some [1, 2, 3], init\<lparr>s_get_ang_vel := 0, s_get_ang_time := 9\<rparr>)"
    using listener_stores_truncated_number [of "bytes_1_5 @ [1, 2, 3]" "3 / 2" init 510 9 None] d b
    by (simp add: t)
  have u: "get_fork (Some bytes_inf) init = Inl UndefinedConversion
   \<and> get_vel (Some bytes_inf) 0 0 init = Inl UndefinedConversion
   \<and> get_ang_vel (Some bytes_inf) 0 0 init = Inl UndefinedConversion"
    using listener_stores_truncated_number [of bytes_inf 0 init 0 0 None] i
    by simp
  have z: "s\<lparr>s_get_vel_vel := s_get_vel_vel s\<rparr> = s" "s\<lparr>s_get_ang_vel := s_get_ang_vel s\<rparr> = s"
    for s :: rover
    by simp_all
  have n: "get_fork (Some [1, 2, 3]) init = Inr (0, Some [1, 2, 3], init)
   \<and> get_vel (Some [1, 2, 3]) 0 0 init = Inr (0, Some [1, 2, 3], init)
   \<and> get_ang_vel (Some [1, 2, 3]) 0 0 init = Inr (0, Some [1, 2, 3], init)"
    using listener_stores_truncated_number [of bytes_inf 0 init 0 0 "Some [1, 2, 3]"]
    by (auto simp: init_def)
  from d t b i k m m' u n show ?thesis
    by simp
qed

text \<open>
  C7. The fork listener has no timeout. \<open>get_fork\<close> does not read the clock: a poll that
  finds no number returns the stored position and changes nothing. Over any number of
  iterations of the main loop in which the fork listener finds no number, with any clock
  readings and whatever the velocity listeners receive, none of them fails to return,
  and after them the stored position, the position of the servo and the target are the
  ones held before, nothing is pending, and the servo was given no angle.
\<close>

theorem fork_position_held:
  "(c = None \<or> (\<exists>b. c = Some b \<and> length b < 8) \<longrightarrow>
      get_fork c s = Inr (of_int (s_get_fork_pos s), c, s))
   \<and> ((\<forall>p \<in> set ps. fork_client p = None \<or> (\<exists>b. fork_client p = Some b \<and> length b < 8))
        \<and> \<not> fork_new s \<longrightarrow>
      run ps s \<noteq> None
      \<and> (\<forall>s'. run ps s = Some (Inr s') \<longrightarrow>
            s_get_fork_pos s' = s_get_fork_pos s
            \<and> current_servo s' = current_servo s
            \<and> (ps \<noteq> [] \<longrightarrow> servo_target s' = double_to_float (int_to_double (s_get_fork_pos s)))
            \<and> \<not> fork_new s'
            \<and> (\<exists>es. out s' = out s @ es \<and> (\<forall>e \<in> set es. \<exists>m d. e = SetDuty m d))))"
proof (intro conjI impI allI)
  assume "c = None \<or> (\<exists>b. c = Some b \<and> length b < 8)"
  then have "read_double c = None" by (simp add: read_double_None_iff)
  then show "get_fork c s = Inr (of_int (s_get_fork_pos s), c, s)"
    by (rule get_fork_silent)
next
  assume h: "(\<forall>p \<in> set ps. fork_client p = None \<or> (\<exists>b. fork_client p = Some b \<and> length b < 8))
        \<and> \<not> fork_new s"
  then have sil: "\<forall>p \<in> set ps. read_double (fork_client p) = None" and nf: "\<not> fork_new s"
    by (simp_all add: read_double_None_iff)
  show "run ps s \<noteq> None"
    by (rule run_fork_silent(1) [OF sil nf])
  fix s'
  assume r: "run ps s = Some (Inr s')"
  from run_fork_silent(2) [OF sil nf r]
  show "s_get_fork_pos s' = s_get_fork_pos s" "current_servo s' = current_servo s"
    "ps \<noteq> [] \<Longrightarrow> servo_target s' = double_to_float (int_to_double (s_get_fork_pos s))"
    "\<not> fork_new s'" "\<exists>es. out s' = out s @ es \<and> (\<forall>e \<in> set es. \<exists>m d. e = SetDuty m d)"
    by (simp_all add: double_to_float_def int_to_double_def)
qed

theorem fork_position_held_witness:
  "((None :: client) = None \<or> (\<exists>b. (None :: client) = Some b \<and> length b < 8))
   \<and> get_fork None (init\<lparr>s_get_fork_pos := 150, servo_target := 150, current_servo := 150\<rparr>)
       = Inr (150, None, init\<lparr>s_get_fork_pos := 150, servo_target := 150, current_servo := 150\<rparr>)
   \<and> (fork_client (no_clients\<lparr>vel_chk := 4000000000\<rparr>) = None
        \<or> (\<exists>b. fork_client (no_clients\<lparr>vel_chk := 4000000000\<rparr>) = Some b \<and> length b < 8))
   \<and> (fork_client no_clients = None \<or> (\<exists>b. fork_client no_clients = Some b \<and> length b < 8))
   \<and> \<not> fork_new (init\<lparr>s_get_fork_pos := 150, servo_target := 150, current_servo := 150\<rparr>)
   \<and> run [no_clients, no_clients\<lparr>vel_chk := 4000000000\<rparr>]
        (init\<lparr>s_get_fork_pos := 150, servo_target := 150, current_servo := 150\<rparr>)
      = Some (Inr (init\<lparr>s_get_fork_pos := 150, servo_target := 150, current_servo := 150,
           out := [SetDuty M1 0, SetDuty M2 0, SetDuty M1 0, SetDuty M2 0]\<rparr>))
   \<and> s_get_fork_pos (init\<lparr>s_get_fork_pos := 150, servo_target := 150, current_servo := 150,
           out := [SetDuty M1 0, SetDuty M2 0, SetDuty M1 0, SetDuty M2 0]\<rparr>) = 150"
proof -
  let ?s = "init\<lparr>s_get_fork_pos := 150, servo_target := 150, current_servo := 150\<rparr>"
  let ?p = "no_clients\<lparr>vel_chk := 4000000000\<rparr>"
  have f: "f32 150 = 150"
    by (rule f32_Ints) simp_all
  have l1: "loop no_clients ?s = Some (Inr (?s\<lparr>out := [SetDuty M1 0, SetDuty M2 0]\<rparr>))"
    by (simp add: loop_def no_clients_def get_vel_silent get_ang_vel_silent get_fork_silent
        read_double_None int_to_float_def double_to_float_def int_to_double_def smooth_fork_def
        init_def f drive_0)
  have l2: "loop ?p (?s\<lparr>out := [SetDuty M1 0, SetDuty M2 0]\<rparr>)
      = Some (Inr (?s\<lparr>out := [SetDuty M1 0, SetDuty M2 0, SetDuty M1 0, SetDuty M2 0]\<rparr>))"
    by (simp add: loop_def no_clients_def get_vel_silent get_ang_vel_silent get_fork_silent
        read_double_None int_to_float_def double_to_float_def int_to_double_def smooth_fork_def
        init_def f drive_0)
  have r: "run [no_clients, ?p] ?s
      = Some (Inr (?s\<lparr>out := [SetDuty M1 0, SetDuty M2 0, SetDuty M1 0, SetDuty M2 0]\<rparr>))"
    by (simp add: l1 l2)
  have nf: "\<not> fork_new ?s" and fc: "fork_client no_clients = None" "fork_client ?p = None"
    by (simp_all add: init_def no_clients_def)
  from fork_position_held [of None ?s "[no_clients, ?p]"] r nf fc
  have "s_get_fork_pos (init\<lparr>s_get_fork_pos := 150, servo_target := 150, current_servo := 150,
           out := [SetDuty M1 0, SetDuty M2 0, SetDuty M1 0, SetDuty M2 0]\<rparr>) = s_get_fork_pos ?s"
    by simp
  moreover from fork_position_held [of None ?s "[no_clients, ?p]"]
  have "get_fork None ?s = Inr (of_int (s_get_fork_pos ?s), None, ?s)"
    by simp
  ultimately show ?thesis
    using r nf fc by simp
qed

subsection \<open>The error of a rounding\<close>

lemma rne_error: "\<bar>of_int (rne y) - y\<bar> \<le> 1 / 2"
proof -
  define d where "d = y - of_int \<lfloor>y\<rfloor>"
  have d: "0 \<le> d" "d < 1"
    unfolding d_def by linarith+
  have y: "y = of_int \<lfloor>y\<rfloor> + d"
    by (simp add: d_def)
  consider "d < 1 / 2" | "1 / 2 < d" | "d = 1 / 2" by linarith
  then show ?thesis
  proof cases
    case 1
    then have "rne y = \<lfloor>y\<rfloor>" by (simp add: rne_def Let_def d_def)
    with 1 d show ?thesis by (simp add: d_def)
  next
    case 2
    then have "rne y = \<lfloor>y\<rfloor> + 1" by (simp add: rne_def Let_def d_def)
    then have "of_int (rne y) - y = 1 - d" by (simp add: d_def)
    with 2 d show ?thesis by simp
  next
    case 3
    then have "rne y = \<lfloor>y\<rfloor> \<or> rne y = \<lfloor>y\<rfloor> + 1"
      by (simp add: rne_def Let_def d_def)
    then have "of_int (rne y) - y = - d \<or> of_int (rne y) - y = 1 - d"
      by (auto simp: d_def)
    with 3 show ?thesis by auto
  qed
qed

lemma ilog2_lower:
  assumes "x \<noteq> 0"
  shows "2 powi (ilog2 x) \<le> \<bar>x\<bar>"
proof (cases "1 \<le> \<bar>x\<bar>")
  case True
  then have "1 \<le> \<lfloor>\<bar>x\<bar>\<rfloor>" by simp
  then have pos: "0 < \<lfloor>\<bar>x\<bar>\<rfloor>" by linarith
  have ge: "0 \<le> bitlen \<lfloor>\<bar>x\<bar>\<rfloor> - 1"
    using bitlen_ge1 [OF pos] by simp
  from bitlen_bounds [OF pos] have "2 ^ nat (bitlen \<lfloor>\<bar>x\<bar>\<rfloor> - 1) \<le> \<lfloor>\<bar>x\<bar>\<rfloor>"
    by simp
  then have "(of_int (2 ^ nat (bitlen \<lfloor>\<bar>x\<bar>\<rfloor> - 1)) :: rat) \<le> of_int \<lfloor>\<bar>x\<bar>\<rfloor>"
    by (simp only: of_int_le_iff)
  also have "\<dots> \<le> \<bar>x\<bar>" by simp
  finally have "(2 :: rat) ^ nat (bitlen \<lfloor>\<bar>x\<bar>\<rfloor> - 1) \<le> \<bar>x\<bar>" by simp
  with True ge show ?thesis
    by (simp add: ilog2_def Let_def power_int_nonneg_exp)
next
  case False
  then have lt: "\<bar>x\<bar> < 1" by simp
  from assms have apos: "0 < \<bar>x\<bar>" by simp
  define n where "n = \<lceil>1 / \<bar>x\<bar>\<rceil> - 1"
  define k where "k = bitlen n"
  from lt apos have "1 < 1 / \<bar>x\<bar>" by simp
  then have "2 \<le> \<lceil>1 / \<bar>x\<bar>\<rceil>" by linarith
  then have npos: "0 < n" by (simp add: n_def)
  have k1: "1 \<le> k" using bitlen_ge1 [OF npos] by (simp add: k_def)
  from bitlen_bounds [OF npos] have "n < 2 ^ nat k" by (simp add: k_def)
  then have "\<lceil>1 / \<bar>x\<bar>\<rceil> \<le> 2 ^ nat k" by (simp add: n_def)
  then have "(of_int \<lceil>1 / \<bar>x\<bar>\<rceil> :: rat) \<le> 2 ^ nat k"
    by (metis of_int_le_iff of_int_numeral of_int_power)
  moreover have "1 / \<bar>x\<bar> \<le> of_int \<lceil>1 / \<bar>x\<bar>\<rceil>" by (rule le_of_int_ceiling)
  ultimately have "1 / \<bar>x\<bar> \<le> 2 ^ nat k" by (rule order_trans [rotated])
  with apos have "1 \<le> 2 ^ nat k * \<bar>x\<bar>"
    by (simp add: pos_divide_le_eq)
  then have "1 / 2 ^ nat k \<le> \<bar>x\<bar>"
    by (simp add: pos_divide_le_eq mult.commute)
  moreover have "(2 :: rat) powi (- k) = 1 / 2 ^ nat k"
    using k1 by (simp add: power_int_def inverse_eq_divide power_one_over)
  ultimately show ?thesis
    using False by (simp add: ilog2_def Let_def n_def k_def)
qed

text \<open>The error is at most half the spacing at the exponent of the argument.\<close>

lemma f32_error_ulp:
  assumes "x \<noteq> 0"
  shows "\<bar>f32 x - x\<bar> \<le> 2 powi (max (ilog2 x) (- 126) - 23) / 2"
proof -
  define ulp :: rat where "ulp = 2 powi (max (ilog2 x) (- 126) - 23)"
  have up: "0 < ulp" by (simp add: ulp_def)
  have "f32 x - x = (of_int (rne (x / ulp)) - x / ulp) * ulp"
    using assms up by (simp add: f32_def Let_def ulp_def [symmetric] algebra_simps)
  then have "\<bar>f32 x - x\<bar> = \<bar>of_int (rne (x / ulp)) - x / ulp\<bar> * ulp"
    using up by (simp add: abs_mult)
  also have "\<dots> \<le> 1 / 2 * ulp"
    using rne_error [of "x / ulp"] up by (intro mult_right_mono) simp_all
  finally show ?thesis by (simp add: ulp_def)
qed

lemma f32_error:
  "\<bar>f32 x - x\<bar> \<le> max (\<bar>x\<bar> / 2 ^ 24) (2 powi (- 150))"
proof (cases "x = 0")
  case True
  then show ?thesis by simp
next
  case False
  show ?thesis
  proof (cases "- 126 \<le> ilog2 x")
    case True
    then have "max (ilog2 x) (- 126) - 23 = ilog2 x + (- 23)" by simp
    moreover have "(2 :: rat) powi (ilog2 x + (- 23)) = 2 powi (ilog2 x) * 2 powi (- 23)"
      by (rule power_int_add) simp
    ultimately have "(2 :: rat) powi (max (ilog2 x) (- 126) - 23) = 2 powi (ilog2 x) * 2 powi (- 23)"
      by (simp only:)
    with f32_error_ulp [OF False] have "\<bar>f32 x - x\<bar> \<le> 2 powi (ilog2 x) * 2 powi (- 23) / 2"
      by simp
    also have "\<dots> = 2 powi (ilog2 x) / 2 ^ 24"
      by (simp add: power_int_minus_divide)
    also have "\<dots> \<le> \<bar>x\<bar> / 2 ^ 24"
      using ilog2_lower [OF False] by (simp add: divide_right_mono)
    finally show ?thesis by (rule max.coboundedI1)
  next
    case False
    then have "max (ilog2 x) (- 126) - 23 = - 149" by simp
    with f32_error_ulp [OF \<open>x \<noteq> 0\<close>] have "\<bar>f32 x - x\<bar> \<le> 2 powi (- 149) / 2"
      by simp
    also have "\<dots> = 2 powi (- 150)"
      by (simp add: power_int_minus_divide)
    finally show ?thesis by (rule max.coboundedI2)
  qed
qed

lemma f32_error_rel:
  assumes "1 / 2 ^ 126 \<le> \<bar>x\<bar>"
  shows "\<bar>f32 x - x\<bar> \<le> \<bar>x\<bar> / 2 ^ 24"
proof -
  have "(2 :: rat) powi (- 150) = 1 / 2 ^ 126 / 2 ^ 24"
    by (simp add: power_int_minus_divide)
  also have "\<dots> \<le> \<bar>x\<bar> / 2 ^ 24"
    using assms by (intro divide_right_mono) simp_all
  finally have "max (\<bar>x\<bar> / 2 ^ 24) (2 powi (- 150)) = \<bar>x\<bar> / 2 ^ 24"
    by (rule max.absorb1)
  with f32_error [of x] show ?thesis by (simp only:)
qed

subsection \<open>The wheel speeds\<close>

lemma f32_error_big:
  assumes "x = 0 \<or> 1 / 18 \<le> \<bar>x\<bar>"
  shows "\<bar>f32 x - x\<bar> \<le> \<bar>x\<bar> / 2 ^ 24"
proof (cases "x = 0")
  case True
  then show ?thesis by simp
next
  case False
  with assms have "1 / 18 \<le> \<bar>x\<bar>" by simp
  moreover have "(1 :: rat) / 2 ^ 126 \<le> 1 / 18" by simp
  ultimately have "1 / 2 ^ 126 \<le> \<bar>x\<bar>" by (rule order_trans [rotated])
  then show ?thesis by (rule f32_error_rel)
qed

text \<open>
  A product with a constant followed by a division by 9 or 18, as in \<^verbatim>\<open>(2*lin_v)/9\<close>: two
  roundings, each of relative error at most \<open>2 ^ - 24\<close>.
\<close>

lemma mul_div_error:
  assumes x: "x = 0 \<or> 2 \<le> \<bar>x\<bar>" and d: "0 < d" "d \<le> 18"
  shows "\<bar>f32 (f32 x / d) - x / d\<bar> \<le> \<bar>x\<bar> / d * (33554433 / 2 ^ 48)"
proof (cases "x = 0")
  case True
  then show ?thesis by simp
next
  case False
  with x have x2: "2 \<le> \<bar>x\<bar>" by simp
  define y where "y = f32 x"
  have e1: "\<bar>y - x\<bar> \<le> \<bar>x\<bar> / 2 ^ 24"
    unfolding y_def using x2 by (intro f32_error_big) simp
  then have yl: "\<bar>x\<bar> - \<bar>x\<bar> / 2 ^ 24 \<le> \<bar>y\<bar>" and yu: "\<bar>y\<bar> \<le> \<bar>x\<bar> + \<bar>x\<bar> / 2 ^ 24"
    by linarith+
  from yl x2 have y1: "1 \<le> \<bar>y\<bar>" by simp
  have "1 / 18 \<le> 1 / d" using d by (simp add: field_simps)
  also have "\<dots> \<le> \<bar>y\<bar> / d" using y1 d by (simp add: divide_right_mono)
  finally have "1 / 18 \<le> \<bar>y / d\<bar>" using d by simp
  then have "\<bar>f32 (y / d) - y / d\<bar> \<le> \<bar>y / d\<bar> / 2 ^ 24"
    by (intro f32_error_big) simp
  also have "\<dots> = \<bar>y\<bar> / d / 2 ^ 24" using d by simp
  also have "\<dots> \<le> (\<bar>x\<bar> + \<bar>x\<bar> / 2 ^ 24) / d / 2 ^ 24"
    using yu d by (intro divide_right_mono) simp_all
  finally have e2: "\<bar>f32 (y / d) - y / d\<bar> \<le> (\<bar>x\<bar> + \<bar>x\<bar> / 2 ^ 24) / d / 2 ^ 24" .
  have "\<bar>y / d - x / d\<bar> = \<bar>y - x\<bar> / d"
    using d by (simp add: diff_divide_distrib [symmetric])
  also have "\<dots> \<le> \<bar>x\<bar> / 2 ^ 24 / d"
    using e1 d by (intro divide_right_mono) simp_all
  finally have e3: "\<bar>y / d - x / d\<bar> \<le> \<bar>x\<bar> / 2 ^ 24 / d" .
  have "\<bar>f32 (y / d) - x / d\<bar> \<le> \<bar>f32 (y / d) - y / d\<bar> + \<bar>y / d - x / d\<bar>"
    by linarith
  also have "\<dots> \<le> (\<bar>x\<bar> + \<bar>x\<bar> / 2 ^ 24) / d / 2 ^ 24 + \<bar>x\<bar> / 2 ^ 24 / d"
    using e2 e3 by linarith
  also have "\<dots> = \<bar>x\<bar> / d * (33554433 / 2 ^ 48)"
    using d by (simp add: field_simps)
  finally show ?thesis by (simp add: y_def)
qed

lemma of_int_abs_ge2:
  "(k :: int) \<noteq> 0 \<Longrightarrow> n \<noteq> 0 \<Longrightarrow> 2 \<le> \<bar>k\<bar> \<Longrightarrow> 2 \<le> \<bar>of_int k * (of_int n :: rat)\<bar>"
proof -
  assume "k \<noteq> 0" "n \<noteq> 0" "2 \<le> \<bar>k\<bar>"
  then have "1 \<le> \<bar>n\<bar>" by simp
  with \<open>2 \<le> \<bar>k\<bar>\<close> have "2 * 1 \<le> \<bar>k\<bar> * \<bar>n\<bar>"
    by (intro mult_mono) simp_all
  then have "2 \<le> \<bar>k * n\<bar>" by (simp add: abs_mult)
  then have "(of_int 2 :: rat) \<le> of_int \<bar>k * n\<bar>" by (simp only: of_int_le_iff)
  then show ?thesis by (simp add: abs_mult)
qed

text \<open>The two terms of the wheel speeds, for whole velocities.\<close>

lemma lin_term_error:
  "\<bar>fdiv (fmul 2 (of_int a)) 9 - 2 / 9 * of_int a\<bar> \<le> 2 / 9 * \<bar>of_int a\<bar> * (33554433 / 2 ^ 48)"
proof -
  have "(2 * of_int a :: rat) = 0 \<or> 2 \<le> \<bar>2 * (of_int a :: rat)\<bar>"
    using of_int_abs_ge2 [of 2 a] by (cases "a = 0") simp_all
  from mul_div_error [OF this, of 9] show ?thesis
    by (simp add: fdiv_def fmul_def abs_mult)
qed

lemma ang_term_error:
  "\<bar>fdiv (fmul 17 (of_int b)) 18 - 17 / 18 * of_int b\<bar>
     \<le> 17 / 18 * \<bar>of_int b\<bar> * (33554433 / 2 ^ 48)"
proof -
  have "(17 * of_int b :: rat) = 0 \<or> 2 \<le> \<bar>17 * (of_int b :: rat)\<bar>"
    using of_int_abs_ge2 [of 17 b] by (cases "b = 0") simp_all
  from mul_div_error [OF this, of 18] show ?thesis
    by (simp add: fdiv_def fmul_def abs_mult)
qed

lemma tiny_le: "s = 0 \<or> 2 / 9 \<le> s \<Longrightarrow> (2 :: rat) powi (- 150) \<le> s / 2 ^ 26 \<or> s = 0"
proof -
  assume "s = 0 \<or> 2 / 9 \<le> s"
  moreover have "(2 :: rat) powi (- 150) \<le> 2 / 9 / 2 ^ 26"
    by (simp add: power_int_minus_divide)
  moreover have "2 / 9 / 2 ^ 26 \<le> s / 2 ^ 26" if "2 / 9 \<le> s"
    using that by (intro divide_right_mono) simp_all
  ultimately show ?thesis by force
qed

lemma weight_cases:
  "2 / 9 * \<bar>of_int a :: rat\<bar> + 17 / 18 * \<bar>of_int b\<bar> = 0
   \<or> 2 / 9 \<le> 2 / 9 * \<bar>of_int a :: rat\<bar> + 17 / 18 * \<bar>of_int b\<bar>"
proof (cases "a = 0")
  case True
  show ?thesis
  proof (cases "b = 0")
    case True
    with \<open>a = 0\<close> show ?thesis by simp
  next
    case False
    then have "1 \<le> \<bar>b\<bar>" by simp
    then have "(1 :: rat) \<le> of_int \<bar>b\<bar>" by (simp only: of_int_1_le_iff)
    then have "(1 :: rat) \<le> \<bar>of_int b\<bar>" by simp
    with \<open>a = 0\<close> show ?thesis by simp
  qed
next
  case False
  then have "1 \<le> \<bar>a\<bar>" by simp
  then have "(1 :: rat) \<le> of_int \<bar>a\<bar>" by (simp only: of_int_1_le_iff)
  then have "(1 :: rat) \<le> \<bar>of_int a\<bar>" by simp
  moreover have "(0 :: rat) \<le> \<bar>of_int b\<bar>" by simp
  ultimately show ?thesis by linarith
qed

text \<open>
  For whole velocities the two wheel speeds are the values of the formulas up to a
  relative error of \<open>2 ^ - 22\<close> of the sum of the magnitudes of the two terms.
\<close>

lemma wheel_error:
  fixes a b :: int
  defines "S \<equiv> 2 / 9 * \<bar>of_int a :: rat\<bar> + 17 / 18 * \<bar>of_int b\<bar>"
  shows "\<bar>wheel_l (of_int a) (of_int b) - (2 / 9 * of_int a - 17 / 18 * of_int b)\<bar> \<le> S / 2 ^ 22"
    and "\<bar>wheel_r (of_int a) (of_int b) - (2 / 9 * of_int a + 17 / 18 * of_int b)\<bar> \<le> S / 2 ^ 22"
proof -
  define A2 where "A2 = fdiv (fmul 2 (of_int a)) 9"
  define B2 where "B2 = fdiv (fmul 17 (of_int b)) 18"
  define A :: rat where "A = 2 / 9 * of_int a"
  define B :: rat where "B = 17 / 18 * of_int b"
  have S: "S = \<bar>A\<bar> + \<bar>B\<bar>"
    by (simp add: S_def A_def B_def abs_mult)
  have eA: "\<bar>A2 - A\<bar> \<le> \<bar>A\<bar> * (33554433 / 2 ^ 48)"
    using lin_term_error [of a] by (simp add: A2_def A_def abs_mult)
  have eB: "\<bar>B2 - B\<bar> \<le> \<bar>B\<bar> * (33554433 / 2 ^ 48)"
    using ang_term_error [of b] by (simp add: B2_def B_def abs_mult)
  have S0: "S = 0 \<or> 2 / 9 \<le> S"
    unfolding S_def by (rule weight_cases)
  have tiny: "(2 :: rat) powi (- 150) \<le> S / 2 ^ 26 \<or> S = 0"
    using S0 by (rule tiny_le)
  have bound: "\<bar>f32 D - E\<bar> \<le> S / 2 ^ 22"
    if D: "\<bar>D - E\<bar> \<le> S * (33554433 / 2 ^ 48)" and E: "\<bar>E\<bar> \<le> S" for D E
  proof (cases "S = 0")
    case True
    with D E have "D = 0" "E = 0" by simp_all
    with True show ?thesis by simp
  next
    case False
    with tiny have t: "(2 :: rat) powi (- 150) \<le> S / 2 ^ 26" by simp
    from D E have "\<bar>D\<bar> \<le> S + S * (33554433 / 2 ^ 48)" by linarith
    then have "\<bar>D\<bar> / 2 ^ 24 \<le> (S + S * (33554433 / 2 ^ 48)) / 2 ^ 24"
      by (intro divide_right_mono) simp_all
    with t have "max (\<bar>D\<bar> / 2 ^ 24) (2 powi (- 150))
        \<le> (S + S * (33554433 / 2 ^ 48)) / 2 ^ 24 + S / 2 ^ 26"
      using S0 by (simp only: max_def) (auto split: if_splits)
    with f32_error [of D] have "\<bar>f32 D - D\<bar> \<le> (S + S * (33554433 / 2 ^ 48)) / 2 ^ 24 + S / 2 ^ 26"
      by linarith
    with D have "\<bar>f32 D - E\<bar>
        \<le> (S + S * (33554433 / 2 ^ 48)) / 2 ^ 24 + S / 2 ^ 26 + S * (33554433 / 2 ^ 48)"
      by linarith
    also have "\<dots> = S * ((1 + 33554433 / 2 ^ 48) / 2 ^ 24 + 1 / 2 ^ 26 + 33554433 / 2 ^ 48)"
      by (simp add: algebra_simps)
    also have "\<dots> \<le> S * (1 / 2 ^ 22)"
      using S0 by (intro mult_left_mono) auto
    finally show ?thesis by simp
  qed
  have "\<bar>(A2 - B2) - (A - B)\<bar> \<le> \<bar>A2 - A\<bar> + \<bar>B2 - B\<bar>" by linarith
  also have "\<dots> \<le> \<bar>A\<bar> * (33554433 / 2 ^ 48) + \<bar>B\<bar> * (33554433 / 2 ^ 48)"
    using eA eB by linarith
  also have "\<dots> = S * (33554433 / 2 ^ 48)"
    by (simp add: S algebra_simps)
  finally have dl: "\<bar>(A2 - B2) - (A - B)\<bar> \<le> S * (33554433 / 2 ^ 48)" .
  have "\<bar>(B2 + A2) - (A + B)\<bar> \<le> \<bar>A2 - A\<bar> + \<bar>B2 - B\<bar>" by linarith
  also have "\<dots> \<le> \<bar>A\<bar> * (33554433 / 2 ^ 48) + \<bar>B\<bar> * (33554433 / 2 ^ 48)"
    using eA eB by linarith
  also have "\<dots> = S * (33554433 / 2 ^ 48)"
    by (simp add: S algebra_simps)
  finally have dr: "\<bar>(B2 + A2) - (A + B)\<bar> \<le> S * (33554433 / 2 ^ 48)" .
  have "\<bar>A - B\<bar> \<le> S" "\<bar>A + B\<bar> \<le> S"
    unfolding S by linarith+
  with bound [OF dl] bound [OF dr]
  show "\<bar>wheel_l (of_int a) (of_int b) - (2 / 9 * of_int a - 17 / 18 * of_int b)\<bar> \<le> S / 2 ^ 22"
    and "\<bar>wheel_r (of_int a) (of_int b) - (2 / 9 * of_int a + 17 / 18 * of_int b)\<bar> \<le> S / 2 ^ 22"
    by (simp_all add: wheel_l_def wheel_r_def fsub_def fadd_def A2_def B2_def A_def B_def)
qed

text \<open>The product with the gain 10 and the conversion to \<^verbatim>\<open>int\<close>, for whole velocities.\<close>

lemma gain_error:
  assumes S0: "S = 0 \<or> 2 / 9 \<le> S" and w: "\<bar>w - e\<bar> \<le> S / 2 ^ 22" and e: "\<bar>e\<bar> \<le> S"
  shows "\<bar>fmul w 10 - 10 * e\<bar> \<le> S / 2 ^ 18"
proof (cases "S = 0")
  case True
  with w e have "w = 0" "e = 0" by simp_all
  with True show ?thesis by (simp add: fmul_def)
next
  case False
  with S0 have S: "2 / 9 \<le> S" by simp
  with tiny_le [OF S0] have t: "(2 :: rat) powi (- 150) \<le> S / 2 ^ 26" by auto
  from w e have "\<bar>w * 10\<bar> \<le> 10 * S + 10 * S / 2 ^ 22" by linarith
  then have "\<bar>w * 10\<bar> / 2 ^ 24 \<le> (10 * S + 10 * S / 2 ^ 22) / 2 ^ 24"
    by (intro divide_right_mono) simp_all
  with t have "max (\<bar>w * 10\<bar> / 2 ^ 24) (2 powi (- 150))
      \<le> (10 * S + 10 * S / 2 ^ 22) / 2 ^ 24 + S / 2 ^ 26"
    using S by (simp only: max_def) (auto split: if_splits)
  with f32_error [of "w * 10"]
  have "\<bar>f32 (w * 10) - w * 10\<bar> \<le> (10 * S + 10 * S / 2 ^ 22) / 2 ^ 24 + S / 2 ^ 26"
    by linarith
  with w have "\<bar>f32 (w * 10) - 10 * e\<bar>
      \<le> (10 * S + 10 * S / 2 ^ 22) / 2 ^ 24 + S / 2 ^ 26 + 10 * S / 2 ^ 22"
    by linarith
  also have "\<dots> = S * ((10 + 10 / 2 ^ 22) / 2 ^ 24 + 1 / 2 ^ 26 + 10 / 2 ^ 22)"
    by (simp add: algebra_simps)
  also have "\<dots> \<le> S * (1 / 2 ^ 18)"
    using S by (intro mult_left_mono) auto
  finally show ?thesis by (simp add: fmul_def)
qed

lemma duty_error:
  fixes a b :: int
  defines "S \<equiv> 2 / 9 * \<bar>of_int a :: rat\<bar> + 17 / 18 * \<bar>of_int b\<bar>"
  shows "\<bar>of_int (trunc (fmul (wheel_l (of_int a) (of_int b)) 10))
           - 10 * (2 / 9 * of_int a - 17 / 18 * of_int b)\<bar> < 1 + S / 2 ^ 18"
    and "\<bar>of_int (trunc (fmul (wheel_r (of_int a) (of_int b)) 10))
           - 10 * (2 / 9 * of_int a + 17 / 18 * of_int b)\<bar> < 1 + S / 2 ^ 18"
proof -
  have S0: "S = 0 \<or> 2 / 9 \<le> S"
    unfolding S_def by (rule weight_cases)
  have el: "\<bar>2 / 9 * of_int a - 17 / 18 * (of_int b :: rat)\<bar> \<le> S"
    and er: "\<bar>2 / 9 * of_int a + 17 / 18 * (of_int b :: rat)\<bar> \<le> S"
    unfolding S_def by linarith+
  from gain_error [OF S0 wheel_error(1) [of a b, folded S_def] el]
    trunc_bounds [of "fmul (wheel_l (of_int a) (of_int b)) 10"]
  show "\<bar>of_int (trunc (fmul (wheel_l (of_int a) (of_int b)) 10))
           - 10 * (2 / 9 * of_int a - 17 / 18 * of_int b)\<bar> < 1 + S / 2 ^ 18"
    by linarith
  from gain_error [OF S0 wheel_error(2) [of a b, folded S_def] er]
    trunc_bounds [of "fmul (wheel_r (of_int a) (of_int b)) 10"]
  show "\<bar>of_int (trunc (fmul (wheel_r (of_int a) (of_int b)) 10))
           - 10 * (2 / 9 * of_int a + 17 / 18 * of_int b)\<bar> < 1 + S / 2 ^ 18"
    by linarith
qed

text \<open>
  Where nothing is rounded: a linear velocity that is a multiple of 9 and an angular velocity
  that is a multiple of 18, both small enough for every intermediate result to be an
  integer below \<open>2 ^ 24\<close>.
\<close>

lemma wheel_lattice:
  fixes i j :: int
  assumes "\<bar>i\<bar> \<le> 2 ^ 18" "\<bar>j\<bar> \<le> 2 ^ 14"
  shows "wheel_l (of_int (9 * i)) (of_int (18 * j)) = of_int (2 * i - 17 * j)"
    and "wheel_r (of_int (9 * i)) (of_int (18 * j)) = of_int (2 * i + 17 * j)"
    and "fmul (of_int (2 * i - 17 * j)) 10 = of_int (10 * (2 * i - 17 * j))"
    and "fmul (of_int (2 * i + 17 * j)) 10 = of_int (10 * (2 * i + 17 * j))"
proof -
  have r: "f32 (of_int n) = of_int n" if "\<bar>n\<bar> \<le> 2 ^ 23" for n :: int
    using that by (intro f32_of_int) simp
  have m1: "fmul 2 (of_int (9 * i)) = of_int (18 * i)"
    using r [of "18 * i"] assms by (simp add: fmul_def)
  have d1: "fdiv (of_int (18 * i)) 9 = of_int (2 * i)"
    using r [of "2 * i"] assms by (simp add: fdiv_def)
  have m2: "fmul 17 (of_int (18 * j)) = of_int (306 * j)"
    using r [of "306 * j"] assms by (simp add: fmul_def)
  have d2: "fdiv (of_int (306 * j)) 18 = of_int (17 * j)"
    using r [of "17 * j"] assms by (simp add: fdiv_def)
  have s: "fsub (of_int (2 * i)) (of_int (17 * j)) = of_int (2 * i - 17 * j)"
    using r [of "2 * i - 17 * j"] assms by (simp add: fsub_def)
  have a: "fadd (of_int (17 * j)) (of_int (2 * i)) = of_int (2 * i + 17 * j)"
    using r [of "2 * i + 17 * j"] assms by (simp add: fadd_def add.commute)
  show "wheel_l (of_int (9 * i)) (of_int (18 * j)) = of_int (2 * i - 17 * j)"
    by (simp only: wheel_l_def m1 d1 m2 d2 s)
  show "wheel_r (of_int (9 * i)) (of_int (18 * j)) = of_int (2 * i + 17 * j)"
    by (simp only: wheel_r_def m1 d1 m2 d2 a)
  show "fmul (of_int (2 * i - 17 * j)) 10 = of_int (10 * (2 * i - 17 * j))"
    using r [of "10 * (2 * i - 17 * j)"] assms by (simp add: fmul_def mult.commute)
  show "fmul (of_int (2 * i + 17 * j)) 10 = of_int (10 * (2 * i + 17 * j))"
    using r [of "10 * (2 * i + 17 * j)"] assms by (simp add: fmul_def mult.commute)
qed

lemma float_to_int_of_int:
  "INT_MIN \<le> n \<Longrightarrow> n \<le> INT_MAX \<Longrightarrow> float_to_int (of_int n) = Inr n"
  by (simp add: float_to_int_def)

lemma drive_lattice:
  fixes i j :: int
  assumes "\<bar>i\<bar> \<le> 2 ^ 18" "\<bar>j\<bar> \<le> 2 ^ 14"
  shows "vels_drive_wheels (of_int (9 * i)) (of_int (18 * j)) s =
    Inr (s\<lparr>out := out s @ [SetDuty M1 (- (10 * (2 * i + 17 * j))),
                             SetDuty M2 (10 * (2 * i - 17 * j))]\<rparr>)"
proof -
  from assms have b: "INT_MIN \<le> 10 * (2 * i + 17 * j)" "10 * (2 * i + 17 * j) \<le> INT_MAX"
    "INT_MIN \<le> 10 * (2 * i - 17 * j)" "10 * (2 * i - 17 * j) \<le> INT_MAX"
    and n: "10 * (2 * i + 17 * j) \<noteq> INT_MIN"
    by (simp_all add: INT_MIN_def INT_MAX_def)
  have l: "float_to_int (fmul (wheel_l (of_int (9 * i)) (of_int (18 * j))) 10)
      = Inr (10 * (2 * i - 17 * j))"
    unfolding wheel_lattice [OF assms] by (rule float_to_int_of_int [OF b(3,4)])
  have r: "float_to_int (fmul (wheel_r (of_int (9 * i)) (of_int (18 * j))) 10)
      = Inr (10 * (2 * i + 17 * j))"
    unfolding wheel_lattice [OF assms] by (rule float_to_int_of_int [OF b(1,2)])
  show ?thesis
    unfolding vels_drive_wheels_def l r using n by (simp add: driveMotors_def)
qed

lemma of_int_abs_le_2p24: "\<bar>a\<bar> \<le> 2 ^ 24 \<Longrightarrow> \<bar>of_int a :: rat\<bar> \<le> 2 ^ 24"
  using of_int_le_2p24 [of "\<bar>a\<bar>"] by simp

lemma wheel_l_1_0: "wheel_l 1 0 = 14913081 / 67108864"
  by code_simp

lemma gain_l_1_0: "fmul (14913081 / 67108864) 10 = 2330169 / 1048576"
  by code_simp

lemma wheel_r_1_0: "wheel_r 1 0 = 14913081 / 67108864"
  by code_simp

lemma wheel_l_2_1: "wheel_l 2 1 = - (16777215 / 33554432)"
  by code_simp

lemma gain_l_2_1: "fmul (- (16777215 / 33554432)) 10 = - (10485759 / 2097152)"
  by code_simp

lemma wheel_r_2_1: "wheel_r 2 1 = 2912711 / 2097152"
  by code_simp

lemma gain_r_2_1: "fmul (2912711 / 2097152) 10 = 14563555 / 1048576"
  by code_simp

lemma wheel_18_17: "wheel_l 0 (f32 (18 / 17)) = - 1" "wheel_r 0 (f32 (18 / 17)) = 1"
  by code_simp+

text \<open>
  C6. The claim fails: for the velocities \<open>(9, 0)\<close> both wheel speeds are 2, so their sum
  is 4, while \<open>(34/18) * 0 * 2\<close> is 0. The sum follows the linear velocity; for \<open>(1, 0)\<close>
  it is twice the \<^verbatim>\<open>float\<close> nearest to \<open>2/9\<close>, which is not \<open>4/9\<close> either.
\<close>

theorem wheel_sum_not_angular:
  "wheel_l 9 0 + wheel_r 9 0 = 4 \<and> wheel_l 9 0 + wheel_r 9 0 \<noteq> 34 / 18 * 0 * 2
   \<and> wheel_l 1 0 + wheel_r 1 0 \<noteq> 34 / 18 * 0 * 2
   \<and> wheel_l 1 0 + wheel_r 1 0 \<noteq> 4 / 9 * 1"
proof -
  have "wheel_l (of_int (9 * 1)) (of_int (18 * 0)) = of_int (2 * 1 - 17 * 0)"
    "wheel_r (of_int (9 * 1)) (of_int (18 * 0)) = of_int (2 * 1 + 17 * 0)"
    by (rule wheel_lattice; simp)+
  then show ?thesis by (simp add: wheel_l_1_0 wheel_r_1_0)
qed

text \<open>
  C6, amended. The sum of the wheel speeds is \<open>(4/9) lin_v\<close>, and it is their difference,
  right minus left, that is \<open>(34/18) ang_v\<close>: for whole velocities each up to the rounding
  of the \<^verbatim>\<open>float\<close> operations, at most \<open>2 ^ - 21\<close> of \<open>(2/9) \<bar>lin_v\<bar> + (17/18) \<bar>ang_v\<bar>\<close>, and
  exactly when \<open>lin_v\<close> is a multiple of 9 and \<open>ang_v\<close> a multiple of 18 of moderate size.
\<close>

theorem wheel_sum_and_difference:
  fixes a b i j :: int
  shows
  "\<bar>wheel_l (of_int a) (of_int b) + wheel_r (of_int a) (of_int b) - 4 / 9 * of_int a\<bar>
      \<le> (2 / 9 * \<bar>of_int a\<bar> + 17 / 18 * \<bar>of_int b\<bar>) / 2 ^ 21
   \<and> \<bar>wheel_r (of_int a) (of_int b) - wheel_l (of_int a) (of_int b) - 34 / 18 * of_int b\<bar>
      \<le> (2 / 9 * \<bar>of_int a\<bar> + 17 / 18 * \<bar>of_int b\<bar>) / 2 ^ 21
   \<and> (\<bar>i\<bar> \<le> 2 ^ 18 \<and> \<bar>j\<bar> \<le> 2 ^ 14 \<longrightarrow>
        wheel_l (of_int (9 * i)) (of_int (18 * j)) + wheel_r (of_int (9 * i)) (of_int (18 * j))
          = 4 / 9 * of_int (9 * i)
        \<and> wheel_r (of_int (9 * i)) (of_int (18 * j)) - wheel_l (of_int (9 * i)) (of_int (18 * j))
          = 34 / 18 * of_int (18 * j))"
proof -
  define S :: rat where "S = 2 / 9 * \<bar>of_int a\<bar> + 17 / 18 * \<bar>of_int b\<bar>"
  define L where "L = wheel_l (of_int a) (of_int b)"
  define R where "R = wheel_r (of_int a) (of_int b)"
  define A :: rat where "A = 2 / 9 * of_int a"
  define B :: rat where "B = 17 / 18 * of_int b"
  from wheel_error [of a b]
  have e: "\<bar>L - (A - B)\<bar> \<le> S / 2 ^ 22" "\<bar>R - (A + B)\<bar> \<le> S / 2 ^ 22"
    by (simp_all add: S_def L_def R_def A_def B_def)
  have h: "S / 2 ^ 22 + S / 2 ^ 22 = S / 2 ^ 21" by simp
  have "\<bar>L + R - 2 * A\<bar> \<le> \<bar>L - (A - B)\<bar> + \<bar>R - (A + B)\<bar>"
    "\<bar>R - L - 2 * B\<bar> \<le> \<bar>L - (A - B)\<bar> + \<bar>R - (A + B)\<bar>"
    by linarith+
  with e h have "\<bar>L + R - 2 * A\<bar> \<le> S / 2 ^ 21" "\<bar>R - L - 2 * B\<bar> \<le> S / 2 ^ 21"
    by linarith+
  then have gen: "\<bar>L + R - 4 / 9 * of_int a\<bar> \<le> S / 2 ^ 21" "\<bar>R - L - 34 / 18 * of_int b\<bar> \<le> S / 2 ^ 21"
    by (simp_all add: A_def B_def)
  have lat: "wheel_l (of_int (9 * i)) (of_int (18 * j)) + wheel_r (of_int (9 * i)) (of_int (18 * j))
          = 4 / 9 * of_int (9 * i)
        \<and> wheel_r (of_int (9 * i)) (of_int (18 * j)) - wheel_l (of_int (9 * i)) (of_int (18 * j))
          = 34 / 18 * of_int (18 * j)"
    if "\<bar>i\<bar> \<le> 2 ^ 18 \<and> \<bar>j\<bar> \<le> 2 ^ 14"
  proof -
    from that have b: "\<bar>i\<bar> \<le> 2 ^ 18" "\<bar>j\<bar> \<le> 2 ^ 14" by simp_all
    have e: "(of_int (2 * i - 17 * j) :: rat) + of_int (2 * i + 17 * j) = 4 / 9 * of_int (9 * i)"
      "(of_int (2 * i + 17 * j) :: rat) - of_int (2 * i - 17 * j) = 34 / 18 * of_int (18 * j)"
      by simp_all
    show ?thesis
      unfolding wheel_lattice(1,2) [OF b] using e by blast
  qed
  from gen lat show ?thesis
    unfolding S_def L_def R_def by blast
qed

theorem wheel_sum_and_difference_witness:
  "\<bar>3 :: int\<bar> \<le> 2 ^ 18 \<and> \<bar>1 :: int\<bar> \<le> 2 ^ 14
   \<and> wheel_l 27 18 + wheel_r 27 18 = 4 / 9 * 27 \<and> wheel_l 27 18 + wheel_r 27 18 = 12
   \<and> wheel_r 27 18 - wheel_l 27 18 = 34 / 18 * 18 \<and> wheel_r 27 18 - wheel_l 27 18 = 34
   \<and> \<bar>wheel_l 2 1 + wheel_r 2 1 - 4 / 9 * 2\<bar> \<le> (2 / 9 * 2 + 17 / 18 * 1) / 2 ^ 21"
proof -
  note t = wheel_sum_and_difference [of 2 1 3 1]
  from t have s: "wheel_l 27 18 + wheel_r 27 18 = 4 / 9 * 27"
    and d: "wheel_r 27 18 - wheel_l 27 18 = 34 / 18 * 18"
    by simp_all
  from t have e: "\<bar>wheel_l 2 1 + wheel_r 2 1 - 4 / 9 * 2\<bar> \<le> (2 / 9 * 2 + 17 / 18 * 1) / 2 ^ 21"
    by simp
  from s d e show ?thesis by simp
qed

subsection \<open>Start-up and the iterations after it\<close>

lemma setup_board_connected:
  "setup_board True s =
     Some (s\<lparr>out := out s @ [Delay 500, SetAngle 180, Delay 500, SetAngle 128, Delay 500]\<rparr>)"
  by (simp add: setup_board_def delay_def setServo_def Let_def)

lemma setup_board_offline: "setup_board False s = None"
  by (simp add: setup_board_def Let_def)

lemma setup_board_init:
  assumes "setup_board wl_connected init = Some s0"
  shows "wl_connected"
    and "s0 = init\<lparr>out := [Delay 500, SetAngle 180, Delay 500, SetAngle 128, Delay 500]\<rparr>"
proof -
  from assms show c: "wl_connected"
    by (cases wl_connected) (simp_all add: setup_board_offline)
  with assms show "s0 = init\<lparr>out := [Delay 500, SetAngle 180, Delay 500, SetAngle 128, Delay 500]\<rparr>"
    by (simp add: setup_board_connected) (auto simp: init_def)
qed












text \<open>
  C10. The claim fails for the sketch as a whole: before the main loop begins, and so
  before any fork command, \<^verbatim>\<open>setup\<close> moves the servo to 180 and back to 128.
\<close>

theorem servo_moves_in_setup:
  "setup_board True init =
     Some (init\<lparr>out := [Delay 500, SetAngle 180, Delay 500, SetAngle 128, Delay 500]\<rparr>)"
  by (simp add: setup_board_connected init_def)

text \<open>
  C10, amended. Before the first fork command the servo moves in \<^verbatim>\<open>setup\<close> only, to 180
  and back to 128; in the main loop it does not move. From the state \<^verbatim>\<open>setup\<close> leaves, over
  any number of iterations in which the fork listener finds no number, \<open>get_fork\<close> returns
  0 and the target is set to 0, yet \<open>fork_new\<close> stays false, the smoothing block is skipped,
  the position stays 128 and the iterations add wheel commands only to the log: no angle
  and no pause. \<open>fork_new\<close> is set by \<open>get_fork\<close> only when it takes eight bytes from a
  client.
\<close>

theorem no_servo_motion_before_first_command:
  assumes "setup_board wl_connected init = Some sb"
  shows "out sb = [Delay 500, SetAngle 180, Delay 500, SetAngle 128, Delay 500]
   \<and> \<not> fork_new sb \<and> current_servo sb = 128
   \<and> (c0 = None \<or> (\<exists>b. c0 = Some b \<and> length b < 8) \<longrightarrow> get_fork c0 sb = Inr (0, c0, sb))
   \<and> (get_fork c s = Inr (v, c', s1) \<and> fork_new s1 \<and> \<not> fork_new s \<longrightarrow>
        (\<exists>b. c = Some b \<and> 8 \<le> length b \<and> c' = Some (drop 8 b)))
   \<and> ((\<forall>p \<in> set ps. fork_client p = None \<or> (\<exists>b. fork_client p = Some b \<and> length b < 8)) \<longrightarrow>
      run ps sb \<noteq> None
      \<and> (\<forall>s'. run ps sb = Some (Inr s') \<longrightarrow>
            \<not> fork_new s' \<and> current_servo s' = 128 \<and> s_get_fork_pos s' = 0
            \<and> (ps \<noteq> [] \<longrightarrow> servo_target s' = 0)
            \<and> (\<exists>es. out s' = out sb @ es \<and> (\<forall>e \<in> set es. \<exists>m d. e = SetDuty m d))))"
proof (intro conjI impI allI)
  note sb = setup_board_init(2) [OF assms]
  show "out sb = [Delay 500, SetAngle 180, Delay 500, SetAngle 128, Delay 500]"
    "\<not> fork_new sb" "current_servo sb = 128"
    by (simp_all add: sb init_def)
next
  assume "c0 = None \<or> (\<exists>b. c0 = Some b \<and> length b < 8)"
  then have "read_double c0 = None" by (simp add: read_double_None_iff)
  then show "get_fork c0 sb = Inr (0, c0, sb)"
    by (simp add: get_fork_silent) (simp add: setup_board_init(2) [OF assms] init_def)
next
  assume h: "get_fork c s = Inr (v, c', s1) \<and> fork_new s1 \<and> \<not> fork_new s"
  show "\<exists>b. c = Some b \<and> 8 \<le> length b \<and> c' = Some (drop 8 b)"
  proof (cases "read_double c")
    case None
    with h show ?thesis by (auto simp: get_fork_silent)
  next
    case (Some r)
    then obtain b where b: "c = Some b" "8 \<le> length b"
      "r = (decode_double (take 8 b), Some (drop 8 b))"
      by (auto simp: read_double_def split: option.splits if_splits)
    with Some h have "c' = Some (drop 8 b)"
      by (auto simp: get_fork_def split: sum.splits)
    with b show ?thesis by simp
  qed
next
  assume "\<forall>p \<in> set ps. fork_client p = None \<or> (\<exists>b. fork_client p = Some b \<and> length b < 8)"
  then have sil: "\<forall>p \<in> set ps. read_double (fork_client p) = None"
    by (simp add: read_double_None_iff)
  note sb = setup_board_init(2) [OF assms]
  have nf: "\<not> fork_new sb" by (simp add: sb init_def)
  show "run ps sb \<noteq> None"
    by (rule run_fork_silent(1) [OF sil nf])
  fix s'
  assume r: "run ps sb = Some (Inr s')"
  from run_fork_silent(2) [OF sil nf r]
  have k: "\<not> fork_new s'" "s_get_fork_pos s' = s_get_fork_pos sb"
    "current_servo s' = current_servo sb"
    "ps \<noteq> [] \<Longrightarrow> servo_target s' = f32 (of_int (s_get_fork_pos sb))"
    "\<exists>es. out s' = out sb @ es \<and> (\<forall>e \<in> set es. \<exists>m d. e = SetDuty m d)"
    by blast+
  have i: "s_get_fork_pos sb = 0" "current_servo sb = 128"
    by (simp_all add: sb init_def)
  from k i show "\<not> fork_new s'" "current_servo s' = 128" "s_get_fork_pos s' = 0"
    "ps \<noteq> [] \<Longrightarrow> servo_target s' = 0"
    "\<exists>es. out s' = out sb @ es \<and> (\<forall>e \<in> set es. \<exists>m d. e = SetDuty m d)"
    by simp_all
qed

theorem no_servo_motion_before_first_command_witness:
  "setup_board True init =
     Some (init\<lparr>out := [Delay 500, SetAngle 180, Delay 500, SetAngle 128, Delay 500]\<rparr>)
   \<and> length [1, 2, 3 :: byte] < 8
   \<and> get_fork (Some [1, 2, 3])
       (init\<lparr>out := [Delay 500, SetAngle 180, Delay 500, SetAngle 128, Delay 500]\<rparr>)
       = Inr (0, Some [1, 2, 3],
           init\<lparr>out := [Delay 500, SetAngle 180, Delay 500, SetAngle 128, Delay 500]\<rparr>)
   \<and> get_fork (Some bytes_150) init
       = Inr (150, Some [], init\<lparr>s_get_fork_pos := 150, fork_new := True\<rparr>)
   \<and> fork_new (init\<lparr>s_get_fork_pos := 150, fork_new := True\<rparr>)
   \<and> 8 \<le> length bytes_150 \<and> Some [] = Some (drop 8 bytes_150)
   \<and> fork_client no_clients = None
   \<and> fork_client (no_clients\<lparr>fork_client := Some [1, 2, 3]\<rparr>) = Some [1, 2, 3]
   \<and> run [no_clients, no_clients\<lparr>fork_client := Some [1, 2, 3]\<rparr>]
       (init\<lparr>out := [Delay 500, SetAngle 180, Delay 500, SetAngle 128, Delay 500]\<rparr>)
       = Some (Inr (init\<lparr>servo_target := 0,
            out := [Delay 500, SetAngle 180, Delay 500, SetAngle 128, Delay 500,
                    SetDuty M1 0, SetDuty M2 0, SetDuty M1 0, SetDuty M2 0]\<rparr>))
   \<and> current_servo (init\<lparr>servo_target := 0,
            out := [Delay 500, SetAngle 180, Delay 500, SetAngle 128, Delay 500,
                    SetDuty M1 0, SetDuty M2 0, SetDuty M1 0, SetDuty M2 0]\<rparr>) = 128"
proof -
  let ?sb = "init\<lparr>out := [Delay 500, SetAngle 180, Delay 500, SetAngle 128, Delay 500]\<rparr>"
  let ?p = "no_clients\<lparr>fork_client := Some [1, 2, 3]\<rparr>"
  let ?s1 = "init\<lparr>servo_target := 0,
      out := [Delay 500, SetAngle 180, Delay 500, SetAngle 128, Delay 500,
              SetDuty M1 0, SetDuty M2 0]\<rparr>"
  let ?s2 = "init\<lparr>servo_target := 0,
      out := [Delay 500, SetAngle 180, Delay 500, SetAngle 128, Delay 500,
              SetDuty M1 0, SetDuty M2 0, SetDuty M1 0, SetDuty M2 0]\<rparr>"
  have sb: "setup_board True init = Some ?sb"
    by (simp add: setup_board_connected init_def)
  have sh: "read_double (Some [1, 2, 3]) = None"
    by (simp add: read_double_def)
  have l1: "loop no_clients ?sb = Some (Inr ?s1)"
    by (simp add: loop_def no_clients_def get_vel_silent get_ang_vel_silent get_fork_silent
        read_double_None int_to_float_def double_to_float_def int_to_double_def smooth_fork_def
        init_def drive_0)
  have l2: "loop ?p ?s1 = Some (Inr ?s2)"
    by (simp add: loop_def no_clients_def get_vel_silent get_ang_vel_silent get_fork_silent
        read_double_None sh int_to_float_def double_to_float_def int_to_double_def smooth_fork_def
        init_def drive_0)
  have r: "run [no_clients, ?p] ?sb = Some (Inr ?s2)"
    by (simp add: l1 l2)
  have g: "get_fork (Some bytes_150) init
       = Inr (150, Some [], init\<lparr>s_get_fork_pos := 150, fork_new := True\<rparr>)"
    using get_fork_message [of "Some bytes_150" 150 "Some []" init] decode_150
    by (simp add: read_double_def bytes_150_def INT_MIN_def INT_MAX_def)
  have fc: "fork_client no_clients = None" "fork_client ?p = Some [1, 2, 3]"
    by (simp_all add: no_clients_def)
  note t = no_servo_motion_before_first_command [OF sb, of "Some [1, 2, 3]" "Some bytes_150" init 150
      "Some []" "init\<lparr>s_get_fork_pos := 150, fork_new := True\<rparr>" "[no_clients, ?p]"]
  from t have a: "get_fork (Some [1, 2, 3]) ?sb = Inr (0, Some [1, 2, 3], ?sb)"
    by simp
  from t g have b: "8 \<le> length bytes_150 \<and> Some [] = Some (drop 8 bytes_150)"
    by (auto simp: init_def)
  from t r fc have c: "current_servo ?s2 = 128"
    by simp
  from sb a b c r g fc show ?thesis
    by simp
qed

subsection \<open>The velocities as the main loop passes them\<close>

text \<open>The \<^verbatim>\<open>float\<close> nearest to an \<^verbatim>\<open>int\<close> is a whole number.\<close>

lemma f32_of_int_whole:
  fixes z :: int
  shows "\<exists>n. f32 (of_int z) = of_int n"
proof (cases "\<bar>z\<bar> \<le> 2 ^ 24")
  case True
  then show ?thesis using f32_of_int by blast
next
  case False
  then have z0: "z \<noteq> 0" and "\<not> \<bar>z\<bar> < 2 ^ 24" by auto
  then have "\<not> bitlen \<bar>z\<bar> \<le> int 24"
    by (simp only: bitlen_le_iff_power) simp
  then have e: "24 \<le> ilog2 (of_int z)"
    using ilog2_of_int [OF z0] by simp
  define k where "k = nat (ilog2 (of_int z) - 23)"
  from e have m: "max (ilog2 (of_int z)) (- 126) - 23 = int k"
    by (simp add: k_def)
  have "f32 (of_int z) = of_int (rne (of_int z / 2 ^ k)) * 2 ^ k"
    using z0 by (simp add: f32_def Let_def m del: of_int_abs)
  also have "\<dots> = of_int (rne (of_int z / 2 ^ k) * 2 ^ k)"
    by simp
  finally show ?thesis by blast
qed

lemma int_to_float_whole:
  fixes z :: int
  obtains n where "int_to_float z = of_int n"
    and "\<bar>of_int n - of_int z :: rat\<bar> \<le> \<bar>of_int z\<bar> / 2 ^ 24"
proof -
  from f32_of_int_whole [of z] obtain n where n: "f32 (of_int z) = of_int n" by blast
  have "(of_int z :: rat) = 0 \<or> 1 / 18 \<le> \<bar>of_int z :: rat\<bar>"
  proof (cases "z = 0")
    case False
    then have "1 \<le> \<bar>z\<bar>" by simp
    then have "(of_int 1 :: rat) \<le> of_int \<bar>z\<bar>" by (simp only: of_int_le_iff)
    then show ?thesis by simp
  qed simp
  from f32_error_big [OF this] n
  have "\<bar>of_int n - of_int z :: rat\<bar> \<le> \<bar>of_int z\<bar> / 2 ^ 24" by simp
  with n that show ?thesis by (simp add: int_to_float_def)
qed

lemma int_to_float_small: "\<bar>z\<bar> \<le> 2 ^ 24 \<Longrightarrow> int_to_float z = of_int z"
  by (simp add: int_to_float_def f32_of_int)

text \<open>
  The wheel speeds and what the motors are handed, for the \<^verbatim>\<open>float\<close>s that the main loop
  makes of two \<^verbatim>\<open>int\<close> velocities.
\<close>

lemma wheel_error_int:
  fixes a b :: int
  defines "S \<equiv> 2 / 9 * \<bar>of_int a :: rat\<bar> + 17 / 18 * \<bar>of_int b\<bar>"
  shows "\<bar>wheel_l (int_to_float a) (int_to_float b) - (2 / 9 * of_int a - 17 / 18 * of_int b)\<bar>
           \<le> S / 2 ^ 21"
    and "\<bar>wheel_r (int_to_float a) (int_to_float b) - (2 / 9 * of_int a + 17 / 18 * of_int b)\<bar>
           \<le> S / 2 ^ 21"
    and "\<bar>of_int (trunc (fmul (wheel_l (int_to_float a) (int_to_float b)) 10))
           - 10 * (2 / 9 * of_int a - 17 / 18 * of_int b)\<bar> < 1 + S / 2 ^ 17"
    and "\<bar>of_int (trunc (fmul (wheel_r (int_to_float a) (int_to_float b)) 10))
           - 10 * (2 / 9 * of_int a + 17 / 18 * of_int b)\<bar> < 1 + S / 2 ^ 17"
proof -
  obtain a' where a': "int_to_float a = of_int a'"
    and da: "\<bar>of_int a' - of_int a :: rat\<bar> \<le> \<bar>of_int a\<bar> / 2 ^ 24"
    by (rule int_to_float_whole)
  obtain b' where b': "int_to_float b = of_int b'"
    and db: "\<bar>of_int b' - of_int b :: rat\<bar> \<le> \<bar>of_int b\<bar> / 2 ^ 24"
    by (rule int_to_float_whole)
  define A :: rat where "A = of_int a"
  define B :: rat where "B = of_int b"
  define A' :: rat where "A' = of_int a'"
  define B' :: rat where "B' = of_int b'"
  define S' :: rat where "S' = 2 / 9 * \<bar>A'\<bar> + 17 / 18 * \<bar>B'\<bar>"
  define El :: rat where "El = 2 / 9 * A - 17 / 18 * B"
  define Er :: rat where "Er = 2 / 9 * A + 17 / 18 * B"
  define El' :: rat where "El' = 2 / 9 * A' - 17 / 18 * B'"
  define Er' :: rat where "Er' = 2 / 9 * A' + 17 / 18 * B'"
  define Wl where "Wl = wheel_l A' B'"
  define Wr where "Wr = wheel_r A' B'"
  define Dl :: rat where "Dl = of_int (trunc (fmul Wl 10))"
  define Dr :: rat where "Dr = of_int (trunc (fmul Wr 10))"
  have S: "S = 2 / 9 * \<bar>A\<bar> + 17 / 18 * \<bar>B\<bar>"
    by (simp add: S_def A_def B_def)
  from da db have d: "\<bar>A' - A\<bar> \<le> \<bar>A\<bar> / 16777216" "\<bar>B' - B\<bar> \<le> \<bar>B\<bar> / 16777216"
    by (simp_all add: A_def B_def A'_def B'_def)
  have S0: "0 \<le> S" unfolding S by simp
  from d have "\<bar>A'\<bar> \<le> \<bar>A\<bar> + \<bar>A\<bar> / 16777216" "\<bar>B'\<bar> \<le> \<bar>B\<bar> + \<bar>B\<bar> / 16777216"
    by linarith+
  moreover have "2 / 9 * x' + 17 / 18 * y'
      \<le> (2 / 9 * x + 17 / 18 * y) + (2 / 9 * x + 17 / 18 * y) / 16777216"
    if "x' \<le> x + x / 16777216" "y' \<le> y + y / 16777216" for x y x' y' :: rat
    using that by (simp add: add_divide_distrib)
  ultimately have S': "S' \<le> S + S / 16777216"
    unfolding S S'_def by blast
  have g: "2 / 9 * x' + 17 / 18 * y' \<le> (2 / 9 * x + 17 / 18 * y) / 16777216"
    if "x' \<le> x / 16777216" "y' \<le> y / 16777216" for x y x' y' :: rat
    using that by (simp add: add_divide_distrib)
  have eq: "El' - El = 2 / 9 * (A' - A) - 17 / 18 * (B' - B)"
    "Er' - Er = 2 / 9 * (A' - A) + 17 / 18 * (B' - B)"
    by (simp_all add: El_def El'_def Er_def Er'_def right_diff_distrib)
  have tri: "\<bar>2 / 9 * x - 17 / 18 * y\<bar> \<le> 2 / 9 * \<bar>x\<bar> + 17 / 18 * \<bar>y\<bar>"
    "\<bar>2 / 9 * x + 17 / 18 * y\<bar> \<le> 2 / 9 * \<bar>x\<bar> + 17 / 18 * \<bar>y\<bar>" for x y :: rat
    by linarith+
  have "\<bar>El' - El\<bar> \<le> 2 / 9 * \<bar>A' - A\<bar> + 17 / 18 * \<bar>B' - B\<bar>"
    "\<bar>Er' - Er\<bar> \<le> 2 / 9 * \<bar>A' - A\<bar> + 17 / 18 * \<bar>B' - B\<bar>"
    unfolding eq by (rule tri)+
  with g [OF d] have E: "\<bar>El' - El\<bar> \<le> S / 16777216" "\<bar>Er' - Er\<bar> \<le> S / 16777216"
    unfolding S by linarith+
  from wheel_error [of a' b']
  have w: "\<bar>Wl - El'\<bar> \<le> S' / 4194304" "\<bar>Wr - Er'\<bar> \<le> S' / 4194304"
    by (simp_all add: Wl_def Wr_def El'_def Er'_def S'_def A'_def B'_def)
  from duty_error [of a' b']
  have u: "\<bar>Dl - 10 * El'\<bar> < 1 + S' / 262144" "\<bar>Dr - 10 * Er'\<bar> < 1 + S' / 262144"
    by (simp_all add: Dl_def Dr_def Wl_def Wr_def El'_def Er'_def S'_def A'_def B'_def)
  have "\<bar>Wl - El\<bar> \<le> \<bar>Wl - El'\<bar> + \<bar>El' - El\<bar>" "\<bar>Wr - Er\<bar> \<le> \<bar>Wr - Er'\<bar> + \<bar>Er' - Er\<bar>"
    by linarith+
  with w E S' S0 have 1: "\<bar>Wl - El\<bar> \<le> S / 2097152" "\<bar>Wr - Er\<bar> \<le> S / 2097152"
    by linarith+
  have ten: "\<bar>10 * x - 10 * y\<bar> = 10 * \<bar>x - y\<bar>" for x y :: rat
  proof -
    have "10 * x - 10 * y = 10 * (x - y)" by (simp add: right_diff_distrib)
    then show ?thesis by (simp only: abs_mult abs_numeral)
  qed
  have "\<bar>Dl - 10 * El\<bar> \<le> \<bar>Dl - 10 * El'\<bar> + \<bar>10 * El' - 10 * El\<bar>"
    "\<bar>Dr - 10 * Er\<bar> \<le> \<bar>Dr - 10 * Er'\<bar> + \<bar>10 * Er' - 10 * Er\<bar>"
    by linarith+
  then have "\<bar>Dl - 10 * El\<bar> \<le> \<bar>Dl - 10 * El'\<bar> + 10 * \<bar>El' - El\<bar>"
    "\<bar>Dr - 10 * Er\<bar> \<le> \<bar>Dr - 10 * Er'\<bar> + 10 * \<bar>Er' - Er\<bar>"
    unfolding ten by simp_all
  with u E S' S0 have 2: "\<bar>Dl - 10 * El\<bar> < 1 + S / 131072" "\<bar>Dr - 10 * Er\<bar> < 1 + S / 131072"
    by linarith+
  from 1 show "\<bar>wheel_l (int_to_float a) (int_to_float b) - (2 / 9 * of_int a - 17 / 18 * of_int b)\<bar>
           \<le> S / 2 ^ 21"
    and "\<bar>wheel_r (int_to_float a) (int_to_float b) - (2 / 9 * of_int a + 17 / 18 * of_int b)\<bar>
           \<le> S / 2 ^ 21"
    by (simp_all add: a' b' Wl_def Wr_def El_def Er_def A_def B_def A'_def B'_def)
  from 2 show "\<bar>of_int (trunc (fmul (wheel_l (int_to_float a) (int_to_float b)) 10))
           - 10 * (2 / 9 * of_int a - 17 / 18 * of_int b)\<bar> < 1 + S / 2 ^ 17"
    and "\<bar>of_int (trunc (fmul (wheel_r (int_to_float a) (int_to_float b)) 10))
           - 10 * (2 / 9 * of_int a + 17 / 18 * of_int b)\<bar> < 1 + S / 2 ^ 17"
    by (simp_all add: a' b' Dl_def Dr_def Wl_def Wr_def El_def Er_def A_def B_def A'_def B'_def)
qed

text \<open>
  While \<open>(2/9) \<bar>lin_v\<bar> + (17/18) \<bar>ang_v\<bar>\<close> is at most \<open>2 ^ 27\<close> the conversions to \<^verbatim>\<open>int\<close> stay
  in range.
\<close>

lemma drive_total_int:
  fixes a b :: int
  assumes "2 / 9 * \<bar>of_int a :: rat\<bar> + 17 / 18 * \<bar>of_int b\<bar> \<le> 2 ^ 27"
  shows "vels_drive_wheels (int_to_float a) (int_to_float b) s =
    Inr (s\<lparr>out := out s @
      [SetDuty M1 (- trunc (fmul (wheel_r (int_to_float a) (int_to_float b)) 10)),
       SetDuty M2 (trunc (fmul (wheel_l (int_to_float a) (int_to_float b)) 10))]\<rparr>)"
proof -
  define S :: rat where "S = 2 / 9 * \<bar>of_int a\<bar> + 17 / 18 * \<bar>of_int b\<bar>"
  define l where "l = trunc (fmul (wheel_l (int_to_float a) (int_to_float b)) 10)"
  define r where "r = trunc (fmul (wheel_r (int_to_float a) (int_to_float b)) 10)"
  have S: "0 \<le> S" "S \<le> 134217728"
    using assms unfolding S_def by simp_all
  define El :: rat where "El = 2 / 9 * of_int a - 17 / 18 * of_int b"
  define Er :: rat where "Er = 2 / 9 * of_int a + 17 / 18 * of_int b"
  have el: "\<bar>El\<bar> \<le> S" and er: "\<bar>Er\<bar> \<le> S"
    unfolding S_def El_def Er_def by linarith+
  from wheel_error_int(3,4) [of a b, folded S_def l_def r_def El_def Er_def]
  have dl: "\<bar>of_int l - 10 * El\<bar> < 1 + S / 131072" and dr: "\<bar>of_int r - 10 * Er\<bar> < 1 + S / 131072"
    by simp_all
  have "\<bar>of_int l :: rat\<bar> \<le> \<bar>of_int l - 10 * El\<bar> + 10 * \<bar>El\<bar>"
    "\<bar>of_int r :: rat\<bar> \<le> \<bar>of_int r - 10 * Er\<bar> + 10 * \<bar>Er\<bar>"
    by linarith+
  with dl dr el er S
  have "\<bar>of_int l :: rat\<bar> < 2147483647" "\<bar>of_int r :: rat\<bar> < 2147483647"
    by linarith+
  then have "(of_int \<bar>l\<bar> :: rat) < of_int 2147483647" "(of_int \<bar>r\<bar> :: rat) < of_int 2147483647"
    by simp_all
  then have "\<bar>l\<bar> < 2147483647" "\<bar>r\<bar> < 2147483647"
    by (simp_all only: of_int_less_iff)
  then have "INT_MIN \<le> l" "l \<le> INT_MAX" "INT_MIN \<le> r" "r \<le> INT_MAX" "r \<noteq> INT_MIN"
    by (simp_all add: INT_MIN_def INT_MAX_def)
  then show ?thesis
    by (simp add: vels_drive_wheels_def float_to_int_def driveMotors_def l_def r_def)
qed

text \<open>The largest \<^verbatim>\<open>int\<close> as linear velocity: ten times the left wheel speed is no \<^verbatim>\<open>int\<close>.\<close>

lemma gain_l_int_max:
  "float_to_int (fmul (wheel_l (int_to_float 2147483647) (int_to_float 0)) 10)
     = Inl UndefinedConversion"
  by code_simp

lemma drive_int_max:
  "vels_drive_wheels (int_to_float 2147483647) (int_to_float 0) s = Inl UndefinedConversion"
  by (simp add: vels_drive_wheels_def gain_l_int_max)

lemma int_to_float_0_1_2: "int_to_float 0 = 0" "int_to_float 1 = 1" "int_to_float 2 = 2"
  using int_to_float_small [of 0] int_to_float_small [of 1] int_to_float_small [of 2]
  by simp_all

text \<open>
  C2. The claim fails as an equation on \<^verbatim>\<open>float\<close>s and on what the motors are handed. For
  the velocities \<open>(1, 0)\<close> the left wheel speed is the \<^verbatim>\<open>float\<close> nearest to \<open>2/9\<close>, not \<open>2/9\<close>,
  and the motors are handed the \<^verbatim>\<open>int\<close>s \<open>-2\<close> and \<open>2\<close>, not \<open>-20/9\<close> and \<open>20/9\<close>. For \<open>(2, 1)\<close>
  ten times the left formula is exactly \<open>-5\<close>, and the left motor is handed \<open>-4\<close>. For the
  largest \<^verbatim>\<open>int\<close> as linear velocity ten times the wheel speed is no \<^verbatim>\<open>int\<close>: the conversion
  is undefined and no defined value is handed to a motor.
\<close>

theorem wheel_commands_are_rounded:
  "wheel_l (int_to_float 1) (int_to_float 0) \<noteq> 2 / 9 * 1 - 17 / 18 * 0
   \<and> vels_drive_wheels (int_to_float 1) (int_to_float 0) init
       = Inr (init\<lparr>out := [SetDuty M1 (- 2), SetDuty M2 2]\<rparr>)
   \<and> 10 * (2 / 9 * 2 - 17 / 18 * 1) = (- 5 :: rat)
   \<and> vels_drive_wheels (int_to_float 2) (int_to_float 1) init
       = Inr (init\<lparr>out := [SetDuty M1 (- 13), SetDuty M2 (- 4)]\<rparr>)
   \<and> vels_drive_wheels (int_to_float 2147483647) (int_to_float 0) init = Inl UndefinedConversion"
proof -
  have t: "trunc (2330169 / 1048576) = 2" "trunc (- (10485759 / 2097152)) = - 4"
    "trunc (14563555 / 1048576) = 13"
    by code_simp+
  have "vels_drive_wheels 1 0 init = Inr (init\<lparr>out := [SetDuty M1 (- 2), SetDuty M2 2]\<rparr>)"
    by (simp add: vels_drive_wheels_def wheel_l_1_0 wheel_r_1_0 gain_l_1_0 float_to_int_def t
        INT_MIN_def INT_MAX_def driveMotors_def) (simp add: init_def)
  moreover
  have "vels_drive_wheels 2 1 init = Inr (init\<lparr>out := [SetDuty M1 (- 13), SetDuty M2 (- 4)]\<rparr>)"
    by (simp add: vels_drive_wheels_def wheel_l_2_1 wheel_r_2_1 gain_l_2_1 gain_r_2_1
        float_to_int_def t INT_MIN_def INT_MAX_def driveMotors_def) (simp add: init_def)
  moreover
  have "vels_drive_wheels (int_to_float 2147483647) 0 init = Inl UndefinedConversion"
    using drive_int_max [of init] by (simp add: int_to_float_0_1_2)
  ultimately show ?thesis
    by (simp add: wheel_l_1_0 int_to_float_0_1_2)
qed

text \<open>
  C2, amended. The main loop converts the two \<^verbatim>\<open>int\<close> velocities of the listeners to
  \<^verbatim>\<open>float\<close> and passes them to \<open>vels_drive_wheels\<close>. The wheel speeds are \<^verbatim>\<open>float\<close>s computed by
  \<^verbatim>\<open>(2*lin_v)/9 - (17*ang_v)/18\<close> and \<^verbatim>\<open>(17*ang_v)/18 + (2*lin_v)/9\<close>, each operation rounded.
  With \<open>S = (2/9) \<bar>lin_v\<bar> + (17/18) \<bar>ang_v\<bar>\<close>, for every pair of \<^verbatim>\<open>int\<close> velocities they differ
  from \<open>(2/9) lin_v - (17/18) ang_v\<close> and \<open>(2/9) lin_v + (17/18) ang_v\<close> by at most \<open>S / 2 ^ 21\<close>
  (by at most \<open>S / 2 ^ 22\<close> for velocities up to \<open>2 ^ 24\<close> in magnitude, which the conversion
  to \<^verbatim>\<open>float\<close> leaves as they are), and they are these values exactly when \<open>lin_v\<close> is a
  multiple of 9 and \<open>ang_v\<close> a multiple of 18 (so \<open>(9, 0)\<close> gives \<open>(2, 2)\<close>; the \<^verbatim>\<open>float\<close>
  nearest to \<open>18/17\<close> gives \<open>(-1, 1)\<close>). Each speed is multiplied by 10 as a \<^verbatim>\<open>float\<close> and
  converted to \<^verbatim>\<open>int\<close>, its fraction discarded, when \<open>driveMotors\<close> is called; \<open>driveMotors\<close>
  hands the negated right value to motor M1 and the left value, unchanged, to motor M2.
  Whenever the call is defined, these are the two values handed. While \<open>S\<close> is at most
  \<open>2 ^ 27\<close> it is defined; what a motor is handed is less than \<open>1 + S / 2 ^ 17\<close> away from ten
  times the formula (\<open>1 + S / 2 ^ 18\<close> up to \<open>2 ^ 24\<close>). For larger velocities the conversion
  can be undefined, as it is for the largest \<^verbatim>\<open>int\<close>.
\<close>

theorem wheel_commands:
  fixes a b i j l r x y :: int
  shows
  "\<bar>wheel_l (int_to_float a) (int_to_float b) - (2 / 9 * of_int a - 17 / 18 * of_int b)\<bar>
      \<le> (2 / 9 * \<bar>of_int a\<bar> + 17 / 18 * \<bar>of_int b\<bar>) / 2 ^ 21
   \<and> \<bar>wheel_r (int_to_float a) (int_to_float b) - (2 / 9 * of_int a + 17 / 18 * of_int b)\<bar>
      \<le> (2 / 9 * \<bar>of_int a\<bar> + 17 / 18 * \<bar>of_int b\<bar>) / 2 ^ 21
   \<and> (\<bar>a\<bar> \<le> 2 ^ 24 \<and> \<bar>b\<bar> \<le> 2 ^ 24 \<longrightarrow>
        int_to_float a = of_int a \<and> int_to_float b = of_int b
        \<and> \<bar>wheel_l (int_to_float a) (int_to_float b) - (2 / 9 * of_int a - 17 / 18 * of_int b)\<bar>
            \<le> (2 / 9 * \<bar>of_int a\<bar> + 17 / 18 * \<bar>of_int b\<bar>) / 2 ^ 22
        \<and> \<bar>wheel_r (int_to_float a) (int_to_float b) - (2 / 9 * of_int a + 17 / 18 * of_int b)\<bar>
            \<le> (2 / 9 * \<bar>of_int a\<bar> + 17 / 18 * \<bar>of_int b\<bar>) / 2 ^ 22
        \<and> \<bar>of_int (trunc (fmul (wheel_l (int_to_float a) (int_to_float b)) 10))
              - 10 * (2 / 9 * of_int a - 17 / 18 * of_int b :: rat)\<bar>
            < 1 + (2 / 9 * \<bar>of_int a\<bar> + 17 / 18 * \<bar>of_int b\<bar>) / 2 ^ 18
        \<and> \<bar>of_int (trunc (fmul (wheel_r (int_to_float a) (int_to_float b)) 10))
              - 10 * (2 / 9 * of_int a + 17 / 18 * of_int b :: rat)\<bar>
            < 1 + (2 / 9 * \<bar>of_int a\<bar> + 17 / 18 * \<bar>of_int b\<bar>) / 2 ^ 18)
   \<and> (\<bar>i\<bar> \<le> 2 ^ 18 \<and> \<bar>j\<bar> \<le> 2 ^ 14 \<longrightarrow>
        wheel_l (int_to_float (9 * i)) (int_to_float (18 * j))
          = 2 / 9 * of_int (9 * i) - 17 / 18 * of_int (18 * j)
        \<and> wheel_r (int_to_float (9 * i)) (int_to_float (18 * j))
          = 2 / 9 * of_int (9 * i) + 17 / 18 * of_int (18 * j)
        \<and> vels_drive_wheels (int_to_float (9 * i)) (int_to_float (18 * j)) s =
            Inr (s\<lparr>out := out s @ [SetDuty M1 (- (10 * (2 * i + 17 * j))),
                                     SetDuty M2 (10 * (2 * i - 17 * j))]\<rparr>))
   \<and> wheel_l (int_to_float 9) (int_to_float 0) = 2 \<and> wheel_r (int_to_float 9) (int_to_float 0) = 2
   \<and> wheel_l 0 (f32 (18 / 17)) = - 1 \<and> wheel_r 0 (f32 (18 / 17)) = 1
   \<and> (r \<noteq> INT_MIN \<longrightarrow>
        driveMotors l r s = Inr (s\<lparr>out := out s @ [SetDuty M1 (- r), SetDuty M2 l]\<rparr>))
   \<and> (2 / 9 * \<bar>of_int a :: rat\<bar> + 17 / 18 * \<bar>of_int b\<bar> \<le> 2 ^ 27 \<longrightarrow>
        vels_drive_wheels (int_to_float a) (int_to_float b) s =
          Inr (s\<lparr>out := out s @
            [SetDuty M1 (- trunc (fmul (wheel_r (int_to_float a) (int_to_float b)) 10)),
             SetDuty M2 (trunc (fmul (wheel_l (int_to_float a) (int_to_float b)) 10))]\<rparr>))
   \<and> (vels_drive_wheels (int_to_float a) (int_to_float b) s = Inr s' \<longrightarrow>
        s' = s\<lparr>out := out s @
            [SetDuty M1 (- trunc (fmul (wheel_r (int_to_float a) (int_to_float b)) 10)),
             SetDuty M2 (trunc (fmul (wheel_l (int_to_float a) (int_to_float b)) 10))]\<rparr>)
   \<and> \<bar>of_int (trunc (fmul (wheel_l (int_to_float a) (int_to_float b)) 10))
        - 10 * (2 / 9 * of_int a - 17 / 18 * of_int b :: rat)\<bar>
      < 1 + (2 / 9 * \<bar>of_int a\<bar> + 17 / 18 * \<bar>of_int b\<bar>) / 2 ^ 17
   \<and> \<bar>of_int (trunc (fmul (wheel_r (int_to_float a) (int_to_float b)) 10))
        - 10 * (2 / 9 * of_int a + 17 / 18 * of_int b :: rat)\<bar>
      < 1 + (2 / 9 * \<bar>of_int a\<bar> + 17 / 18 * \<bar>of_int b\<bar>) / 2 ^ 17
   \<and> vels_drive_wheels (int_to_float 2147483647) (int_to_float 0) s = Inl UndefinedConversion
   \<and> (get_vel (vel_client p) (vel_rx p) (vel_chk p) st = Inr (x, cx, sx)
        \<and> get_ang_vel (ang_client p) (ang_rx p) (ang_chk p) sx = Inr (y, cy, sy)
        \<and> get_fork (fork_client p) sy = Inr (f, cf, sf)
        \<and> smooth_fork (sf\<lparr>servo_target := double_to_float f\<rparr>) = Some sm \<longrightarrow>
        loop p st = Some (vels_drive_wheels (int_to_float x) (int_to_float y) sm))"
proof -
  have small: "int_to_float a = of_int a \<and> int_to_float b = of_int b
        \<and> \<bar>wheel_l (int_to_float a) (int_to_float b) - (2 / 9 * of_int a - 17 / 18 * of_int b)\<bar>
            \<le> (2 / 9 * \<bar>of_int a\<bar> + 17 / 18 * \<bar>of_int b\<bar>) / 2 ^ 22
        \<and> \<bar>wheel_r (int_to_float a) (int_to_float b) - (2 / 9 * of_int a + 17 / 18 * of_int b)\<bar>
            \<le> (2 / 9 * \<bar>of_int a\<bar> + 17 / 18 * \<bar>of_int b\<bar>) / 2 ^ 22
        \<and> \<bar>of_int (trunc (fmul (wheel_l (int_to_float a) (int_to_float b)) 10))
              - 10 * (2 / 9 * of_int a - 17 / 18 * of_int b :: rat)\<bar>
            < 1 + (2 / 9 * \<bar>of_int a\<bar> + 17 / 18 * \<bar>of_int b\<bar>) / 2 ^ 18
        \<and> \<bar>of_int (trunc (fmul (wheel_r (int_to_float a) (int_to_float b)) 10))
              - 10 * (2 / 9 * of_int a + 17 / 18 * of_int b :: rat)\<bar>
            < 1 + (2 / 9 * \<bar>of_int a\<bar> + 17 / 18 * \<bar>of_int b\<bar>) / 2 ^ 18"
    if h: "\<bar>a\<bar> \<le> 2 ^ 24 \<and> \<bar>b\<bar> \<le> 2 ^ 24"
  proof -
    from h have e: "int_to_float a = of_int a" "int_to_float b = of_int b"
      by (simp_all add: int_to_float_small)
    from wheel_error [of a b] duty_error [of a b] e show ?thesis
      unfolding e by blast
  qed
  have lat: "wheel_l (int_to_float (9 * i)) (int_to_float (18 * j))
          = 2 / 9 * of_int (9 * i) - 17 / 18 * of_int (18 * j)
        \<and> wheel_r (int_to_float (9 * i)) (int_to_float (18 * j))
          = 2 / 9 * of_int (9 * i) + 17 / 18 * of_int (18 * j)
        \<and> vels_drive_wheels (int_to_float (9 * i)) (int_to_float (18 * j)) s =
            Inr (s\<lparr>out := out s @ [SetDuty M1 (- (10 * (2 * i + 17 * j))),
                                     SetDuty M2 (10 * (2 * i - 17 * j))]\<rparr>)"
    if h: "\<bar>i\<bar> \<le> 2 ^ 18 \<and> \<bar>j\<bar> \<le> 2 ^ 14"
  proof -
    from h have b: "\<bar>i\<bar> \<le> 2 ^ 18" "\<bar>j\<bar> \<le> 2 ^ 14" by simp_all
    have c: "int_to_float (9 * i) = of_int (9 * i)" "int_to_float (18 * j) = of_int (18 * j)"
      by (rule int_to_float_small, use b in simp)+
    have e: "(of_int (2 * i - 17 * j) :: rat) = 2 / 9 * of_int (9 * i) - 17 / 18 * of_int (18 * j)"
      "(of_int (2 * i + 17 * j) :: rat) = 2 / 9 * of_int (9 * i) + 17 / 18 * of_int (18 * j)"
      by simp_all
    note l = trans [OF wheel_lattice(1) [OF b] e(1)]
    note r = trans [OF wheel_lattice(2) [OF b] e(2)]
    from l r drive_lattice [OF b, of s] show ?thesis
      unfolding c by blast
  qed
  have "wheel_l (of_int (9 * 1)) (of_int (18 * 0)) = of_int (2 * 1 - 17 * 0)"
    "wheel_r (of_int (9 * 1)) (of_int (18 * 0)) = of_int (2 * 1 + 17 * 0)"
    by (rule wheel_lattice; simp)+
  moreover have "int_to_float 9 = 9" using int_to_float_small [of 9] by simp
  ultimately have fx: "wheel_l (int_to_float 9) (int_to_float 0) = 2"
    "wheel_r (int_to_float 9) (int_to_float 0) = 2"
    by (simp_all add: int_to_float_0_1_2)
  have drv: "driveMotors l r s = Inr (s\<lparr>out := out s @ [SetDuty M1 (- r), SetDuty M2 l]\<rparr>)"
    if "r \<noteq> INT_MIN"
    using that by (simp add: driveMotors_def)
  have tot: "vels_drive_wheels (int_to_float a) (int_to_float b) s =
          Inr (s\<lparr>out := out s @
            [SetDuty M1 (- trunc (fmul (wheel_r (int_to_float a) (int_to_float b)) 10)),
             SetDuty M2 (trunc (fmul (wheel_l (int_to_float a) (int_to_float b)) 10))]\<rparr>)"
    if "2 / 9 * \<bar>of_int a :: rat\<bar> + 17 / 18 * \<bar>of_int b\<bar> \<le> 2 ^ 27"
    using that by (rule drive_total_int)
  have han: "s' = s\<lparr>out := out s @
            [SetDuty M1 (- trunc (fmul (wheel_r (int_to_float a) (int_to_float b)) 10)),
             SetDuty M2 (trunc (fmul (wheel_l (int_to_float a) (int_to_float b)) 10))]\<rparr>"
    if "vels_drive_wheels (int_to_float a) (int_to_float b) s = Inr s'"
    using that
    by (auto simp: vels_drive_wheels_def float_to_int_def driveMotors_def
        split: if_splits sum.splits)
  have lp: "loop p st = Some (vels_drive_wheels (int_to_float x) (int_to_float y) sm)"
    if "get_vel (vel_client p) (vel_rx p) (vel_chk p) st = Inr (x, cx, sx)
        \<and> get_ang_vel (ang_client p) (ang_rx p) (ang_chk p) sx = Inr (y, cy, sy)
        \<and> get_fork (fork_client p) sy = Inr (f, cf, sf)
        \<and> smooth_fork (sf\<lparr>servo_target := double_to_float f\<rparr>) = Some sm"
    using that by (simp add: loop_def Let_def)
  from wheel_error_int [of a b] small lat fx wheel_18_17 drv tot han drive_int_max [of s] lp
  show ?thesis
    by blast
qed

theorem wheel_commands_witness:
  "\<bar>2 :: int\<bar> \<le> 2 ^ 24 \<and> \<bar>1 :: int\<bar> \<le> 2 ^ 24
   \<and> int_to_float 2 = 2 \<and> int_to_float 1 = 1
   \<and> \<bar>wheel_l (int_to_float 2) (int_to_float 1) - (2 / 9 * 2 - 17 / 18 * 1)\<bar>
        \<le> (2 / 9 * 2 + 17 / 18 * 1) / 2 ^ 22
   \<and> \<bar>3 :: int\<bar> \<le> 2 ^ 18 \<and> \<bar>1 :: int\<bar> \<le> 2 ^ 14
   \<and> wheel_l (int_to_float 27) (int_to_float 18) = 2 / 9 * 27 - 17 / 18 * 18
   \<and> wheel_l (int_to_float 27) (int_to_float 18) = - 11
   \<and> wheel_r (int_to_float 27) (int_to_float 18) = 2 / 9 * 27 + 17 / 18 * 18
   \<and> wheel_r (int_to_float 27) (int_to_float 18) = 23
   \<and> vels_drive_wheels (int_to_float 27) (int_to_float 18) init
       = Inr (init\<lparr>out := [SetDuty M1 (- 230), SetDuty M2 (- 110)]\<rparr>)
   \<and> (5 :: int) \<noteq> INT_MIN
   \<and> driveMotors 7 5 init = Inr (init\<lparr>out := [SetDuty M1 (- 5), SetDuty M2 7]\<rparr>)
   \<and> 2 / 9 * \<bar>of_int 2 :: rat\<bar> + 17 / 18 * \<bar>of_int 1\<bar> \<le> 2 ^ 27
   \<and> vels_drive_wheels (int_to_float 2) (int_to_float 1) init = Inr (init\<lparr>out := out init @
         [SetDuty M1 (- trunc (fmul (wheel_r (int_to_float 2) (int_to_float 1)) 10)),
          SetDuty M2 (trunc (fmul (wheel_l (int_to_float 2) (int_to_float 1)) 10))]\<rparr>)
   \<and> get_vel (vel_client (no_clients\<lparr>vel_client := Some bytes_150\<rparr>)) 0 0 init
       = Inr (150, Some [], init\<lparr>s_get_vel_vel := 150\<rparr>)
   \<and> get_ang_vel None 0 0 (init\<lparr>s_get_vel_vel := 150\<rparr>) = Inr (0, None, init\<lparr>s_get_vel_vel := 150\<rparr>)
   \<and> get_fork None (init\<lparr>s_get_vel_vel := 150\<rparr>) = Inr (0, None, init\<lparr>s_get_vel_vel := 150\<rparr>)
   \<and> smooth_fork (init\<lparr>s_get_vel_vel := 150, servo_target := double_to_float 0\<rparr>)
       = Some (init\<lparr>s_get_vel_vel := 150, servo_target := 0\<rparr>)
   \<and> loop (no_clients\<lparr>vel_client := Some bytes_150\<rparr>) init
       = Some (vels_drive_wheels (int_to_float 150) (int_to_float 0)
           (init\<lparr>s_get_vel_vel := 150, servo_target := 0\<rparr>))"
proof -
  let ?p = "no_clients\<lparr>vel_client := Some bytes_150\<rparr>"
  let ?sx = "init\<lparr>s_get_vel_vel := 150\<rparr>"
  let ?sm = "init\<lparr>s_get_vel_vel := 150, servo_target := 0\<rparr>"
  have rd: "read_double (Some bytes_150) = Some (Finite 150, Some [])"
    using decode_150 by (simp add: read_double_def bytes_150_def)
  have p: "vel_client ?p = Some bytes_150" "vel_rx ?p = 0" "vel_chk ?p = 0"
    "ang_client ?p = None" "ang_rx ?p = 0" "ang_chk ?p = 0" "fork_client ?p = None"
    by (simp_all add: no_clients_def)
  have gv: "get_vel (Some bytes_150) 0 0 init = Inr (150, Some [], ?sx)"
    using get_vel_message [OF rd, of 0 0 init]
    by (simp add: INT_MIN_def INT_MAX_def) (simp add: init_def)
  have ga: "get_ang_vel None 0 0 ?sx = Inr (0, None, ?sx)"
    by (simp add: get_ang_vel_silent read_double_None init_def)
  have gf: "get_fork None ?sx = Inr (0, None, ?sx)"
    by (simp add: get_fork_silent read_double_None init_def)
  have sf: "smooth_fork (?sx\<lparr>servo_target := double_to_float 0\<rparr>) = Some ?sm"
    by (simp add: smooth_fork_def double_to_float_def init_def)
  have c: "(5 :: int) \<noteq> INT_MIN" by (simp add: INT_MIN_def)
  note t = wheel_commands [where a = 2 and b = 1 and i = 3 and j = 1 and s = init
      and l = 7 and r = 5 and s' = "init\<lparr>out := out init @
         [SetDuty M1 (- trunc (fmul (wheel_r (int_to_float 2) (int_to_float 1)) 10)),
          SetDuty M2 (trunc (fmul (wheel_l (int_to_float 2) (int_to_float 1)) 10))]\<rparr>" and p = ?p and st = init and x = 150 and cx = "Some []" and sx = ?sx
      and y = 0 and cy = None and sy = ?sx and f = 0 and cf = None and sf = ?sx and sm = ?sm]
  have h: "\<bar>2 :: int\<bar> \<le> 2 ^ 24 \<and> \<bar>1 :: int\<bar> \<le> 2 ^ 24" "\<bar>3 :: int\<bar> \<le> 2 ^ 18 \<and> \<bar>1 :: int\<bar> \<le> 2 ^ 14"
    "2 / 9 * \<bar>of_int 2 :: rat\<bar> + 17 / 18 * \<bar>of_int 1\<bar> \<le> 2 ^ 27"
    by simp_all
  from t h(1) have "int_to_float 2 = of_int 2" "int_to_float 1 = of_int 1"
    by blast+
  then have i: "int_to_float 2 = 2" "int_to_float 1 = 1"
    by simp_all
  from t h(1)
  have "\<bar>wheel_l (int_to_float 2) (int_to_float 1) - (2 / 9 * of_int 2 - 17 / 18 * of_int 1)\<bar>
        \<le> (2 / 9 * \<bar>of_int 2\<bar> + 17 / 18 * \<bar>of_int 1\<bar>) / 2 ^ 22"
    by blast
  then have e: "\<bar>wheel_l (int_to_float 2) (int_to_float 1) - (2 / 9 * 2 - 17 / 18 * 1)\<bar>
        \<le> (2 / 9 * 2 + 17 / 18 * 1) / 2 ^ 22"
    by simp
  from t h(2)
  have "wheel_l (int_to_float (9 * 3)) (int_to_float (18 * 1))
          = 2 / 9 * of_int (9 * 3) - 17 / 18 * of_int (18 * 1)"
    "wheel_r (int_to_float (9 * 3)) (int_to_float (18 * 1))
          = 2 / 9 * of_int (9 * 3) + 17 / 18 * of_int (18 * 1)"
    "vels_drive_wheels (int_to_float (9 * 3)) (int_to_float (18 * 1)) init =
            Inr (init\<lparr>out := out init @ [SetDuty M1 (- (10 * (2 * 3 + 17 * 1))),
                                     SetDuty M2 (10 * (2 * 3 - 17 * 1))]\<rparr>)"
    by blast+
  then have l: "wheel_l (int_to_float 27) (int_to_float 18) = 2 / 9 * 27 - 17 / 18 * 18"
    and r: "wheel_r (int_to_float 27) (int_to_float 18) = 2 / 9 * 27 + 17 / 18 * 18"
    and d: "vels_drive_wheels (int_to_float 27) (int_to_float 18) init
       = Inr (init\<lparr>out := out init @ [SetDuty M1 (- 230), SetDuty M2 (- 110)]\<rparr>)"
    by simp_all
  from t c have m: "driveMotors 7 5 init = Inr (init\<lparr>out := out init @ [SetDuty M1 (- 5), SetDuty M2 7]\<rparr>)"
    by blast
  from t h(3) have v: "vels_drive_wheels (int_to_float 2) (int_to_float 1) init = Inr (init\<lparr>out := out init @
         [SetDuty M1 (- trunc (fmul (wheel_r (int_to_float 2) (int_to_float 1)) 10)),
          SetDuty M2 (trunc (fmul (wheel_l (int_to_float 2) (int_to_float 1)) 10))]\<rparr>)"
    by blast
  have hp: "get_vel (vel_client ?p) (vel_rx ?p) (vel_chk ?p) init = Inr (150, Some [], ?sx)
        \<and> get_ang_vel (ang_client ?p) (ang_rx ?p) (ang_chk ?p) ?sx = Inr (0, None, ?sx)
        \<and> get_fork (fork_client ?p) ?sx = Inr (0, None, ?sx)
        \<and> smooth_fork (?sx\<lparr>servo_target := double_to_float 0\<rparr>) = Some ?sm"
    using gv ga gf sf by (simp add: p)
  from t hp have lp: "loop ?p init
       = Some (vels_drive_wheels (int_to_float 150) (int_to_float 0) ?sm)"
    by blast
  have o: "out init = []" by (simp add: init_def)
  have w: "wheel_l (int_to_float 27) (int_to_float 18) = - 11"
    "wheel_r (int_to_float 27) (int_to_float 18) = 23"
    using l r by simp_all
  from m v d have o': "driveMotors 7 5 init = Inr (init\<lparr>out := [SetDuty M1 (- 5), SetDuty M2 7]\<rparr>)"
    "vels_drive_wheels (int_to_float 27) (int_to_float 18) init
       = Inr (init\<lparr>out := [SetDuty M1 (- 230), SetDuty M2 (- 110)]\<rparr>)"
    by (simp_all add: o)
  from gv p have gv': "get_vel (vel_client ?p) 0 0 init = Inr (150, Some [], ?sx)"
    by simp
  show ?thesis
    by (intro conjI) (rule i e l r w o' c v gv' ga gf sf lp | simp)+

qed

end
